theory Spec2Isabelle
  imports Main "HOL-Library.Word"
begin

unbundle bit_operations_syntax

section \<open>Kernel and driver interface shared by the three programs\<close>

text \<open>
  The three programs are task bodies of the form \<^verbatim>\<open>while(1) { ... }\<close> running on an
  external kernel. Each loop body is embedded as a function from the task's state (its
  locals and the data it shares) and the values the kernel and the drivers return to it
  in that iteration, to the new state and the list of kernel and driver calls the
  iteration makes, in program order.
\<close>

text \<open>
  Modelled from the spec: \<^verbatim>\<open>GPIO.h\<close> is not among the sources. \<^verbatim>\<open>pinState_t\<close> is the
  level of a pin (Low or High); the source applies \<^verbatim>\<open>^= 1\<close> to it, so it is kept as
  the integer the enumeration stands for, with Low as 0 and High as 1.
\<close>

type_synonym pinState_t = "32 word"

definition PIN_IS_LOW :: pinState_t where
  "PIN_IS_LOW = 0"

definition PIN_IS_HIGH :: pinState_t where
  "PIN_IS_HIGH = 1"

text \<open>The pins and the port the sources name.\<close>

datatype pinX_t = PIN0 | PIN1

datatype portX_t = PORT_0

type_synonym TickType_t = "32 word"

datatype TaskHandle_t = NULL | LED_handle | Button_handle

datatype SemaphoreHandle_t = mutex

datatype QueueHandle_t = message_queue

text \<open>
  A \<^verbatim>\<open>Message_st *\<close>. The only message records of the queue program are the three
  locals of its \<^verbatim>\<open>main\<close>, whose addresses are handed to the three producer tasks.
\<close>

datatype Message_ptr = button1_message | button2_message | string_message

text \<open>
  One constructor for each kernel or driver function the tasks call, with the call's
  arguments; a call that returns a value carries the returned value last.
\<close>

datatype event =
    GPIO_read portX_t pinX_t pinState_t
  | GPIO_write portX_t pinX_t pinState_t
  | vTaskDelay TickType_t
  | vTaskSuspend TaskHandle_t
  | vTaskResume TaskHandle_t
  | xSemaphoreTake SemaphoreHandle_t TickType_t bool
  | xSemaphoreGive SemaphoreHandle_t
  | xQueueSend QueueHandle_t Message_ptr TickType_t
  | xQueueReceive QueueHandle_t TickType_t Message_ptr
  | vSerialPutString string "8 word"

section \<open>Assignment 1, task 3: LED task and button task\<close>

definition NO_TOGGLE :: "32 word" where
  "NO_TOGGLE = 0"

text \<open>
  \<^verbatim>\<open>toggle_rate\<close> is an \<^verbatim>\<open>int\<close>; the source only assigns it 0, 400 and 100, compares
  it with 0 and passes it to \<^verbatim>\<open>vTaskDelay\<close>, so its 32-bit pattern is all that is used.
\<close>

record LED_data_st =
  pin_num :: pinX_t
  pin_state :: pinState_t
  toggle_rate :: "32 word"

text \<open>One iteration of the loop of \<^verbatim>\<open>LED_task_code\<close>.\<close>

definition LED_task_code :: "LED_data_st \<Rightarrow> LED_data_st \<times> event list" where
  "LED_task_code d =
     (if toggle_rate d = NO_TOGGLE
      then (d, [GPIO_write PORT_0 (pin_num d) (pin_state d), vTaskSuspend NULL])
      else (d\<lparr>pin_state := pin_state d XOR 1\<rparr>,
            [GPIO_write PORT_0 (pin_num d) (pin_state d), vTaskDelay (toggle_rate d)]))"

text \<open>The locals of \<^verbatim>\<open>Button_task_code\<close> that live across iterations.\<close>

record Button_locals =
  duration :: "32 word"
  pin0_prev_state :: pinState_t

text \<open>
  The statements before the loop: \<^verbatim>\<open>duration = 0\<close> and the first read of the pin,
  which gives the previous level its initial value.
\<close>

definition Button_task_init :: "pinState_t \<Rightarrow> Button_locals \<times> event list" where
  "Button_task_init lvl =
     (\<lparr>duration = 0, pin0_prev_state = lvl\<rparr>, [GPIO_read PORT_0 PIN0 lvl])"

text \<open>
  One iteration of the loop of \<^verbatim>\<open>Button_task_code\<close>; \<open>lvl\<close> is what
  \<^verbatim>\<open>GPIO_read(PORT_0, PIN0)\<close> returns in this iteration. \<^verbatim>\<open>duration\<close> is an
  \<^verbatim>\<open>unsigned long\<close>, so \<^verbatim>\<open>duration >= 0\<close> is the comparison of a 32-bit word.
\<close>

definition Button_task_code ::
  "pinState_t \<Rightarrow> Button_locals \<times> LED_data_st \<Rightarrow> (Button_locals \<times> LED_data_st) \<times> event list" where
  "Button_task_code lvl s =
     (let b = fst s; d = snd s in
      if lvl = PIN_IS_HIGH
      then ((b\<lparr>duration := duration b + 10, pin0_prev_state := lvl\<rparr>, d),
            [GPIO_read PORT_0 PIN0 lvl, vTaskDelay 10])
      else if pin0_prev_state b = PIN_IS_HIGH
      then (if 0 \<le> duration b \<and> duration b < 2000
            then ((b\<lparr>duration := 0, pin0_prev_state := lvl\<rparr>,
                   d\<lparr>toggle_rate := NO_TOGGLE, pin_state := PIN_IS_LOW\<rparr>),
                  [GPIO_read PORT_0 PIN0 lvl, vTaskDelay 10])
            else if 2000 \<le> duration b \<and> duration b < 4000
            then ((b\<lparr>duration := 0, pin0_prev_state := lvl\<rparr>, d\<lparr>toggle_rate := 400\<rparr>),
                  [GPIO_read PORT_0 PIN0 lvl, vTaskResume LED_handle, vTaskDelay 10])
            else ((b\<lparr>duration := 0, pin0_prev_state := lvl\<rparr>, d\<lparr>toggle_rate := 100\<rparr>),
                  [GPIO_read PORT_0 PIN0 lvl, vTaskResume LED_handle, vTaskDelay 10]))
      else ((b\<lparr>duration := 0, pin0_prev_state := lvl\<rparr>, d),
            [GPIO_read PORT_0 PIN0 lvl, vTaskDelay 10]))"

text \<open>The button task run over the levels its successive iterations read.\<close>

fun Button_task_run ::
  "pinState_t list \<Rightarrow> Button_locals \<times> LED_data_st \<Rightarrow> (Button_locals \<times> LED_data_st) \<times> event list" where
  "Button_task_run [] s = (s, [])"
| "Button_task_run (lvl # lvls) s =
     (let r = Button_task_code lvl s; r' = Button_task_run lvls (fst r)
      in (fst r', snd r @ snd r'))"

section \<open>Assignment 2, task 2: two producers sharing the UART under a mutex\<close>

text \<open>
  Modelled from the spec: \<^verbatim>\<open>portMAX_DELAY\<close> comes from the kernel's port header, which
  is not among the sources; it is the timeout that stands for "block forever", the largest
  value of the 32-bit tick type.
\<close>

definition portMAX_DELAY :: TickType_t where
  "portMAX_DELAY = 0xFFFFFFFF"

definition NUL :: char where
  "NUL = CHR 0x00"

text \<open>\<^verbatim>\<open>#define INT_TO_CHAR(number) ((char)(number + '0'))\<close>, applied to a \<^verbatim>\<open>uint8_t\<close>.\<close>

definition INT_TO_CHAR :: "8 word \<Rightarrow> char" where
  "INT_TO_CHAR number = char_of (unat number + 48)"

text \<open>
  \<^verbatim>\<open>strlen\<close> of a character array: the number of characters before the first NUL;
  \<open>None\<close> when the array holds no NUL, where the C function reads past its end.
\<close>

definition strlen :: "string \<Rightarrow> nat option" where
  "strlen buf = (if NUL \<in> set buf then Some (length (takeWhile (\<lambda>c. c \<noteq> NUL) buf)) else None)"

text \<open>
  The locals of \<^verbatim>\<open>task1_code\<close> and \<^verbatim>\<open>task2_code\<close>. Their \<^verbatim>\<open>message\<close> and
  \<^verbatim>\<open>message_len\<close> carry the prefix \<open>task_\<close> here, to keep them apart from the fields
  of the same names of \<^verbatim>\<open>Message_st\<close> in the queue program.
\<close>

record task_locals =
  task_message :: string
  task_message_len :: "8 word"
  message_ID :: "8 word"
  heavy_load_index :: "32 word"

text \<open>
  The declarations before the loop. \<^verbatim>\<open>char message[] = "..."\<close> is the literal and its
  terminator; \<^verbatim>\<open>heavy_load_index\<close> (of task 2 only) starts uninitialised, \<open>h\<close> here.
\<close>

definition task_init :: "string \<Rightarrow> 32 word \<Rightarrow> task_locals option" where
  "task_init lit h =
     (case strlen (lit @ [NUL]) of
        None \<Rightarrow> None
      | Some n \<Rightarrow> Some \<lparr>task_message = lit @ [NUL], task_message_len = of_nat n, message_ID = 0,
                         heavy_load_index = h\<rparr>)"

definition task1_init :: "task_locals option" where
  "task1_init = task_init ''Task 1 - Message x\<newline>'' 0"

definition task2_init :: "32 word \<Rightarrow> task_locals option" where
  "task2_init h = task_init ''Task 2 - Message x\<newline>'' h"

text \<open>
  \<^verbatim>\<open>message[message_len - 2] = INT_TO_CHAR(message_ID)\<close>. The index is computed in
  \<^verbatim>\<open>int\<close>; \<open>None\<close> when it falls outside the array, where the C behaviour is undefined.
\<close>

definition put_message_ID :: "task_locals \<Rightarrow> task_locals option" where
  "put_message_ID l =
     (let i = int (unat (task_message_len l)) - 2 in
      if 0 \<le> i \<and> nat i < length (task_message l)
      then Some (l\<lparr>task_message := (task_message l)[nat i := INT_TO_CHAR (message_ID l)]\<rparr>)
      else None)"

text \<open>
  The loop \<^verbatim>\<open>for(message_ID = 0; message_ID < 10; message_ID++)\<close> of task 1, entered
  after the initialisation \<^verbatim>\<open>message_ID = 0\<close>.
\<close>

function task1_for :: "task_locals \<Rightarrow> (task_locals \<times> event list) option" where
  "task1_for l =
     (if message_ID l < 10
      then (case put_message_ID l of
              None \<Rightarrow> None
            | Some l1 \<Rightarrow>
                (case task1_for (l1\<lparr>message_ID := message_ID l + 1\<rparr>) of
                   None \<Rightarrow> None
                 | Some r \<Rightarrow>
                     Some (fst r,
                           [vSerialPutString (task_message l1) (task_message_len l1), vTaskDelay 100]
                             @ snd r)))
      else Some (l, []))"
  by pat_completeness auto
termination
proof (relation "measure (\<lambda>l. 10 - unat (message_ID l))")
  show "wf (measure (\<lambda>l. 10 - unat (message_ID l)))"
    by simp
next
  fix l l1 :: task_locals
  assume "message_ID l < 10"
  then have "unat (message_ID l) < 10"
    by (simp add: word_less_nat_alt)
  then have "unat (message_ID l + 1) = unat (message_ID l) + 1"
    by (simp add: unat_word_ariths)
  then show "(l1\<lparr>message_ID := message_ID l + 1\<rparr>, l) \<in> measure (\<lambda>l. 10 - unat (message_ID l))"
    using \<open>unat (message_ID l) < 10\<close> by simp
qed

declare task1_for.simps [simp del]

text \<open>
  The busy loop of task 2,
  \<^verbatim>\<open>for(heavy_load_index = 0; heavy_load_index < 100000; heavy_load_index++);\<close>,
  entered after \<^verbatim>\<open>heavy_load_index = 0\<close>; it returns the final index.
\<close>

function heavy_load :: "32 word \<Rightarrow> 32 word" where
  "heavy_load i = (if i < 100000 then heavy_load (i + 1) else i)"
  by pat_completeness auto
termination
proof (relation "measure (\<lambda>i. 100000 - unat i)")
  show "wf (measure (\<lambda>i. 100000 - unat i))"
    by simp
next
  fix i :: "32 word"
  assume "i < 100000"
  then have "unat i < 100000"
    by (simp add: word_less_nat_alt)
  then have "unat (i + 1) = unat i + 1"
    by (simp add: unat_word_ariths)
  then show "(i + 1, i) \<in> measure (\<lambda>i. 100000 - unat i)"
    using \<open>unat i < 100000\<close> by simp
qed

declare heavy_load.simps [simp del]

text \<open>
  The loop \<^verbatim>\<open>for(message_ID = 0; message_ID < 10; message_ID++)\<close> of task 2: the same,
  with the busy loop after the transmission and a delay of 500 ticks.
\<close>

function task2_for :: "task_locals \<Rightarrow> (task_locals \<times> event list) option" where
  "task2_for l =
     (if message_ID l < 10
      then (case put_message_ID l of
              None \<Rightarrow> None
            | Some l1 \<Rightarrow>
                (case task2_for (l1\<lparr>heavy_load_index := heavy_load 0,
                                     message_ID := message_ID l + 1\<rparr>) of
                   None \<Rightarrow> None
                 | Some r \<Rightarrow>
                     Some (fst r,
                           [vSerialPutString (task_message l1) (task_message_len l1), vTaskDelay 500]
                             @ snd r)))
      else Some (l, []))"
  by pat_completeness auto
termination
proof (relation "measure (\<lambda>l. 10 - unat (message_ID l))")
  show "wf (measure (\<lambda>l. 10 - unat (message_ID l)))"
    by simp
next
  fix l l1 :: task_locals
  assume "message_ID l < 10"
  then have "unat (message_ID l) < 10"
    by (simp add: word_less_nat_alt)
  then have "unat (message_ID l + 1) = unat (message_ID l) + 1"
    by (simp add: unat_word_ariths)
  then show "(l1\<lparr>heavy_load_index := heavy_load 0, message_ID := message_ID l + 1\<rparr>, l)
               \<in> measure (\<lambda>l. 10 - unat (message_ID l))"
    using \<open>unat (message_ID l) < 10\<close> by simp
qed

declare task2_for.simps [simp del]

text \<open>
  One iteration of the \<^verbatim>\<open>while(1)\<close> loop of \<^verbatim>\<open>task1_code\<close>. \<open>taken\<close> says whether
  \<^verbatim>\<open>xSemaphoreTake(mutex, portMAX_DELAY)\<close> returned \<^verbatim>\<open>pdTRUE\<close>.
\<close>

definition task1_code :: "bool \<Rightarrow> task_locals \<Rightarrow> (task_locals \<times> event list) option" where
  "task1_code taken l =
     (if taken
      then (case task1_for (l\<lparr>message_ID := 0\<rparr>) of
              None \<Rightarrow> None
            | Some r \<Rightarrow>
                Some (fst r,
                      [xSemaphoreTake mutex portMAX_DELAY True] @ snd r
                        @ [xSemaphoreGive mutex, vTaskDelay 1]))
      else Some (l, [xSemaphoreTake mutex portMAX_DELAY False, vTaskDelay 1]))"

text \<open>One iteration of the \<^verbatim>\<open>while(1)\<close> loop of \<^verbatim>\<open>task2_code\<close>.\<close>

definition task2_code :: "bool \<Rightarrow> task_locals \<Rightarrow> (task_locals \<times> event list) option" where
  "task2_code taken l =
     (if taken
      then (case task2_for (l\<lparr>message_ID := 0\<rparr>) of
              None \<Rightarrow> None
            | Some r \<Rightarrow>
                Some (fst r,
                      [xSemaphoreTake mutex portMAX_DELAY True] @ snd r
                        @ [xSemaphoreGive mutex, vTaskDelay 1]))
      else Some (l, [xSemaphoreTake mutex portMAX_DELAY False, vTaskDelay 1]))"

text \<open>
  A task's \<^verbatim>\<open>while(1)\<close> loop run for finitely many iterations: \<open>body\<close> is one iteration,
  the list holds what each iteration receives from outside, and the calls of the
  iterations are concatenated. \<open>None\<close> when an iteration does not complete.
\<close>

fun task_run ::
  "('i \<Rightarrow> 's \<Rightarrow> ('s \<times> event list) option) \<Rightarrow> 'i list \<Rightarrow> 's \<Rightarrow> ('s \<times> event list) option" where
  "task_run body [] s = Some (s, [])"
| "task_run body (x # xs) s =
     (case body x s of
        None \<Rightarrow> None
      | Some r \<Rightarrow>
          (case task_run body xs (fst r) of
             None \<Rightarrow> None
           | Some r' \<Rightarrow> Some (fst r', snd r @ snd r')))"

text \<open>
  Modelled from the spec: the serial driver is not among the sources; its
  \<^verbatim>\<open>put_string(bytes, length)\<close> transmits the first \<open>length\<close> bytes of the string.
  \<open>uart_output\<close> lists what the calls of a trace transmit, in order.
\<close>

fun uart_output :: "event list \<Rightarrow> string list" where
  "uart_output [] = []"
| "uart_output (vSerialPutString str n # evs) = take (unat n) str # uart_output evs"
| "uart_output (_ # evs) = uart_output evs"

text \<open>
  Whether the task holds the mutex after a trace, given whether it held it before: a
  take that returned \<^verbatim>\<open>pdTRUE\<close> makes it the holder, a give ends the holding.
\<close>

fun holds_mutex :: "event list \<Rightarrow> bool \<Rightarrow> bool" where
  "holds_mutex [] h = h"
| "holds_mutex (xSemaphoreTake m t taken # evs) h = holds_mutex evs (h \<or> taken)"
| "holds_mutex (xSemaphoreGive m # evs) h = holds_mutex evs False"
| "holds_mutex (_ # evs) h = holds_mutex evs h"

section \<open>Assignment 2, task 3: three producers, a queue and one consumer\<close>

definition MESSAGE_LEN :: nat where
  "MESSAGE_LEN = 25"

definition MESSAGE_QUEUE_LEN :: nat where
  "MESSAGE_QUEUE_LEN = 10"

text \<open>
  \<^verbatim>\<open>Message_st\<close>: \<^verbatim>\<open>char message[MESSAGE_LEN + 1]\<close>, as the list of the array's bytes,
  and \<^verbatim>\<open>uint8_t message_len\<close>.
\<close>

record Message_st =
  message :: string
  message_len :: "8 word"

text \<open>The three message records of \<^verbatim>\<open>main\<close>, by address.\<close>

type_synonym memory = "Message_ptr \<Rightarrow> Message_st"

text \<open>
  \<^verbatim>\<open>strcpy(dst, src)\<close> for a string literal \<open>src\<close>: the literal and its terminator
  replace the first bytes of the destination array. \<open>None\<close> when they do not fit, where
  the C function writes past the end of the array.
\<close>

definition strcpy :: "string \<Rightarrow> string \<Rightarrow> string option" where
  "strcpy dst src =
     (if length src + 1 \<le> length dst
      then Some (src @ [NUL] @ drop (length src + 1) dst)
      else None)"

text \<open>
  The pair of statements every producer uses to fill its record:
  \<^verbatim>\<open>strcpy(p->message, lit); p->message_len = (uint8_t) strlen(p->message);\<close>
\<close>

definition write_message :: "string \<Rightarrow> Message_st \<Rightarrow> Message_st option" where
  "write_message lit m =
     (case strcpy (message m) lit of
        None \<Rightarrow> None
      | Some buf \<Rightarrow>
          (case strlen buf of
             None \<Rightarrow> None
           | Some n \<Rightarrow> Some (m\<lparr>message := buf, message_len := of_nat n\<rparr>)))"

text \<open>
  One iteration of the loop of \<^verbatim>\<open>Button1_task_code\<close>. The state is
  \<^verbatim>\<open>button1_prev_state\<close> and the memory holding the message records; \<open>lvl\<close> is what
  \<^verbatim>\<open>GPIO_read(PORT_0, PIN0)\<close> returns.
\<close>

definition Button1_task_code ::
  "pinState_t \<Rightarrow> pinState_t \<times> memory \<Rightarrow> ((pinState_t \<times> memory) \<times> event list) option" where
  "Button1_task_code lvl s =
     (let button1_prev_state = fst s; mem = snd s in
      if lvl \<noteq> button1_prev_state
      then (case write_message
                   (if lvl = PIN_IS_HIGH then ''Button1 Rising Edge\<newline>''
                    else ''Button1 Falling Edge\<newline>'')
                   (mem button1_message) of
              None \<Rightarrow> None
            | Some m \<Rightarrow>
                Some ((lvl, mem(button1_message := m)),
                      [GPIO_read PORT_0 PIN0 lvl,
                       xQueueSend message_queue button1_message portMAX_DELAY,
                       vTaskDelay 1]))
      else Some ((lvl, mem), [GPIO_read PORT_0 PIN0 lvl, vTaskDelay 1]))"

text \<open>One iteration of the loop of \<^verbatim>\<open>Button2_task_code\<close>, which reads pin 1.\<close>

definition Button2_task_code ::
  "pinState_t \<Rightarrow> pinState_t \<times> memory \<Rightarrow> ((pinState_t \<times> memory) \<times> event list) option" where
  "Button2_task_code lvl s =
     (let button2_prev_state = fst s; mem = snd s in
      if lvl \<noteq> button2_prev_state
      then (case write_message
                   (if lvl = PIN_IS_HIGH then ''Button2 Rising Edge\<newline>''
                    else ''Button2 Falling Edge\<newline>'')
                   (mem button2_message) of
              None \<Rightarrow> None
            | Some m \<Rightarrow>
                Some ((lvl, mem(button2_message := m)),
                      [GPIO_read PORT_0 PIN1 lvl,
                       xQueueSend message_queue button2_message portMAX_DELAY,
                       vTaskDelay 1]))
      else Some ((lvl, mem), [GPIO_read PORT_0 PIN1 lvl, vTaskDelay 1]))"

text \<open>
  The statements of both button tasks before the loop: the first read of the pin is the
  initial previous level.
\<close>

definition Button1_task_init :: "pinState_t \<Rightarrow> memory \<Rightarrow> (pinState_t \<times> memory) \<times> event list" where
  "Button1_task_init lvl mem = ((lvl, mem), [GPIO_read PORT_0 PIN0 lvl])"

definition Button2_task_init :: "pinState_t \<Rightarrow> memory \<Rightarrow> (pinState_t \<times> memory) \<times> event list" where
  "Button2_task_init lvl mem = ((lvl, mem), [GPIO_read PORT_0 PIN1 lvl])"

text \<open>The statements of \<^verbatim>\<open>String_task_code\<close> before its loop fill its record once.\<close>

definition String_task_init :: "memory \<Rightarrow> memory option" where
  "String_task_init mem =
     (case write_message ''Periodic Message\<newline>'' (mem string_message) of
        None \<Rightarrow> None
      | Some m \<Rightarrow> Some (mem(string_message := m)))"

text \<open>One iteration of the loop of \<^verbatim>\<open>String_task_code\<close>.\<close>

definition String_task_code :: "memory \<Rightarrow> memory \<times> event list" where
  "String_task_code mem =
     (mem, [xQueueSend message_queue string_message portMAX_DELAY, vTaskDelay 100])"

text \<open>
  One iteration of the loop of \<^verbatim>\<open>Consumer_task_code\<close>; \<open>p\<close> is the pointer that
  \<^verbatim>\<open>xQueueReceive\<close> stores in \<^verbatim>\<open>consumer_message_ptr\<close>.
\<close>

definition Consumer_task_code :: "Message_ptr \<Rightarrow> memory \<Rightarrow> memory \<times> event list" where
  "Consumer_task_code p mem =
     (mem, [xQueueReceive message_queue portMAX_DELAY p,
            vSerialPutString (message (mem p)) (message_len (mem p)),
            vTaskDelay 50])"

section \<open>The kernel's queue and its blocking calls\<close>

text \<open>
  Modelled from the spec: the queue (\<^verbatim>\<open>xQueueCreate\<close>, \<^verbatim>\<open>xQueueSend\<close>,
  \<^verbatim>\<open>xQueueReceive\<close>) is the kernel's and not among the sources. The spec's bounded
  channel: a FIFO of items with a capacity fixed at construction; \<open>send\<close> enqueues at the
  back when a slot is free and blocks the caller otherwise; \<open>receive\<close> dequeues the oldest
  item and blocks the caller when there is none. A call that blocks is \<open>None\<close> here: the
  caller does not proceed in this state of the channel.
\<close>

record 'a Channel =
  items :: "'a list"
  capacity :: nat

definition create_queue :: "nat \<Rightarrow> 'a Channel" where
  "create_queue n = \<lparr>items = [], capacity = n\<rparr>"

definition send :: "'a Channel \<Rightarrow> 'a \<Rightarrow> 'a Channel option" where
  "send q x = (if length (items q) < capacity q then Some (q\<lparr>items := items q @ [x]\<rparr>) else None)"

definition receive :: "'a Channel \<Rightarrow> ('a \<times> 'a Channel) option" where
  "receive q = (case items q of [] \<Rightarrow> None | x # xs \<Rightarrow> Some (x, q\<lparr>items := xs\<rparr>))"

text \<open>
  A sequence of calls on a channel, each running to completion before the next; the result
  is the list of the items the receives returned, in order, and the channel at the end.
  \<open>None\<close> when some call of the sequence blocks.
\<close>

datatype 'a channel_call = Send 'a | Receive

fun channel_run :: "'a channel_call list \<Rightarrow> 'a Channel \<Rightarrow> ('a list \<times> 'a Channel) option" where
  "channel_run [] q = Some ([], q)"
| "channel_run (Send x # cs) q =
     (case send q x of None \<Rightarrow> None | Some q' \<Rightarrow> channel_run cs q')"
| "channel_run (Receive # cs) q =
     (case receive q of
        None \<Rightarrow> None
      | Some r \<Rightarrow>
          (case channel_run cs (snd r) of
             None \<Rightarrow> None
           | Some r' \<Rightarrow> Some (fst r # fst r', snd r')))"

fun sends_of :: "'a channel_call list \<Rightarrow> 'a list" where
  "sends_of [] = []"
| "sends_of (Send x # cs) = x # sends_of cs"
| "sends_of (Receive # cs) = sends_of cs"

text \<open>
  A round: a batch of sends followed by as many receives as drain it. \<open>rounds\<close> is a
  sequence of such rounds.
\<close>

definition send_round :: "'a list \<Rightarrow> 'a channel_call list" where
  "send_round xs = map Send xs @ replicate (length xs) Receive"

definition rounds :: "'a list list \<Rightarrow> 'a channel_call list" where
  "rounds bs = concat (map send_round bs)"

text \<open>
  Modelled from the spec: the kernel's blocking discipline, \<^verbatim>\<open>take(handle, timeout)\<close>,
  \<^verbatim>\<open>send(handle, item, timeout)\<close> and \<^verbatim>\<open>receive(handle, &out, timeout)\<close>, is not among
  the sources. The caller waits tick after tick for the resource it asked for; the list
  says, for each tick of the observed stretch of time, whether the resource is available
  then. A call with a finite timeout gives up once that many ticks have gone by; a call
  with the infinite timeout \<^verbatim>\<open>portMAX_DELAY\<close> never gives up. \<open>elapsed\<close> counts the ticks
  waited so far.
\<close>

datatype wait_result = Obtained nat | Timed_out nat | Still_blocked

fun wait_for :: "TickType_t \<Rightarrow> nat \<Rightarrow> bool list \<Rightarrow> wait_result" where
  "wait_for timeout elapsed [] = Still_blocked"
| "wait_for timeout elapsed (available # later) =
     (if available then Obtained elapsed
      else if timeout \<noteq> portMAX_DELAY \<and> unat timeout \<le> elapsed then Timed_out elapsed
      else wait_for timeout (Suc elapsed) later)"

text \<open>The timeout argument of a call on the mutex or on the queue; no other call has one.\<close>

fun blocking_timeout :: "event \<Rightarrow> TickType_t option" where
  "blocking_timeout (xSemaphoreTake m t taken) = Some t"
| "blocking_timeout (xQueueSend q p t) = Some t"
| "blocking_timeout (xQueueReceive q t p) = Some t"
| "blocking_timeout _ = None"

section \<open>The queue program as a whole\<close>

text \<open>
  The state the four tasks of the queue program share or keep across iterations: the
  memory with the three message records, the queue of pointers to them, and the locals of
  the two button tasks, \<^verbatim>\<open>button1_prev_state\<close> and \<^verbatim>\<open>button1_curr_state\<close> (and the same
  for button 2). A button task can be stopped in the middle of an iteration, inside an
  \<^verbatim>\<open>xQueueSend\<close> that finds the queue full; \<open>button1_pending\<close> holds the calls of that
  iteration still to be made, the send first, and is empty when the task is not blocked.
\<close>

record system =
  mem :: memory
  chan :: "Message_ptr Channel"
  button1_prev_state :: pinState_t
  button1_curr_state :: pinState_t
  button1_pending :: "event list"
  button2_prev_state :: pinState_t
  button2_curr_state :: pinState_t
  button2_pending :: "event list"

text \<open>
  Which task runs next, and the level a button task reads when it starts a new iteration
  (a button task blocked in its send reads nothing: the level is not used then).
\<close>

datatype schedule = Button1_runs pinState_t | Button2_runs pinState_t | String_runs | Consumer_runs

text \<open>The effect of a producer's calls on the queue: each \<^verbatim>\<open>xQueueSend\<close> enqueues its pointer.\<close>

fun enqueue_sends :: "event list \<Rightarrow> Message_ptr Channel \<Rightarrow> Message_ptr Channel option" where
  "enqueue_sends [] q = Some q"
| "enqueue_sends (xQueueSend h p t # evs) q =
     (case send q p of None \<Rightarrow> None | Some q' \<Rightarrow> enqueue_sends evs q')"
| "enqueue_sends (_ # evs) q = enqueue_sends evs q"

text \<open>The calls of an iteration made before its first \<^verbatim>\<open>xQueueSend\<close>, and those from it on.\<close>

fun before_send :: "event list \<Rightarrow> event list" where
  "before_send [] = []"
| "before_send (xQueueSend h p t # evs) = []"
| "before_send (e # evs) = e # before_send evs"

fun from_send :: "event list \<Rightarrow> event list" where
  "from_send [] = []"
| "from_send (xQueueSend h p t # evs) = xQueueSend h p t # evs"
| "from_send (e # evs) = from_send evs"

text \<open>
  One step of the chosen task on the system, with the calls that return in it.

  A button task that is not blocked runs its next iteration. Its writes to its record
  precede the send, so they are in memory whether or not the send can proceed. When the
  queue has room the iteration completes. When the queue is full the task stops inside
  \<^verbatim>\<open>xQueueSend\<close>: the record is written, the level read is in
  \<^verbatim>\<open>button1_curr_state\<close>, \<^verbatim>\<open>button1_prev_state\<close> is not yet assigned, and the send and
  what follows it are pending. A blocked button task completes the pending calls once the
  queue has room, and only then assigns \<^verbatim>\<open>button1_prev_state\<close>.

  \<open>None\<close> when the task cannot move in this state (it is blocked in a send on a full
  queue or in a receive on an empty one, having changed nothing since it blocked), or
  when a copy overruns its buffer.
\<close>

fun system_step :: "schedule \<Rightarrow> system \<Rightarrow> (system \<times> event list) option" where
  "system_step (Button1_runs lvl) s =
     (if button1_pending s \<noteq> []
      then (case enqueue_sends (button1_pending s) (chan s) of
              None \<Rightarrow> None
            | Some q \<Rightarrow>
                Some (s\<lparr>chan := q, button1_prev_state := button1_curr_state s,
                        button1_pending := []\<rparr>,
                      button1_pending s))
      else (case Button1_task_code lvl (button1_prev_state s, mem s) of
              None \<Rightarrow> None
            | Some r \<Rightarrow>
                (case enqueue_sends (snd r) (chan s) of
                   None \<Rightarrow>
                     Some (s\<lparr>mem := snd (fst r), button1_curr_state := lvl,
                             button1_pending := from_send (snd r)\<rparr>,
                           before_send (snd r))
                 | Some q \<Rightarrow>
                     Some (s\<lparr>mem := snd (fst r), chan := q, button1_curr_state := lvl,
                             button1_prev_state := fst (fst r)\<rparr>,
                           snd r))))"
| "system_step (Button2_runs lvl) s =
     (if button2_pending s \<noteq> []
      then (case enqueue_sends (button2_pending s) (chan s) of
              None \<Rightarrow> None
            | Some q \<Rightarrow>
                Some (s\<lparr>chan := q, button2_prev_state := button2_curr_state s,
                        button2_pending := []\<rparr>,
                      button2_pending s))
      else (case Button2_task_code lvl (button2_prev_state s, mem s) of
              None \<Rightarrow> None
            | Some r \<Rightarrow>
                (case enqueue_sends (snd r) (chan s) of
                   None \<Rightarrow>
                     Some (s\<lparr>mem := snd (fst r), button2_curr_state := lvl,
                             button2_pending := from_send (snd r)\<rparr>,
                           before_send (snd r))
                 | Some q \<Rightarrow>
                     Some (s\<lparr>mem := snd (fst r), chan := q, button2_curr_state := lvl,
                             button2_prev_state := fst (fst r)\<rparr>,
                           snd r))))"
| "system_step String_runs s =
     (case enqueue_sends (snd (String_task_code (mem s))) (chan s) of
        None \<Rightarrow> None
      | Some q \<Rightarrow>
          Some (s\<lparr>mem := fst (String_task_code (mem s)), chan := q\<rparr>,
                snd (String_task_code (mem s))))"
| "system_step Consumer_runs s =
     (case receive (chan s) of
        None \<Rightarrow> None
      | Some r \<Rightarrow>
          Some (s\<lparr>mem := fst (Consumer_task_code (fst r) (mem s)), chan := snd r\<rparr>,
                snd (Consumer_task_code (fst r) (mem s))))"

text \<open>
  The start of the queue program: \<^verbatim>\<open>main\<close> creates the queue with
  \<^verbatim>\<open>MESSAGE_QUEUE_LEN\<close> slots, the string task fills its record, and each button task
  reads its pin once into both of its level variables. \<open>mem0\<close> is the memory as
  \<^verbatim>\<open>main\<close> leaves it (the records are not initialised there).
\<close>

definition system_init :: "memory \<Rightarrow> pinState_t \<Rightarrow> pinState_t \<Rightarrow> system option" where
  "system_init mem0 lvl1 lvl2 =
     (case String_task_init mem0 of
        None \<Rightarrow> None
      | Some m \<Rightarrow>
          Some \<lparr>mem = m, chan = create_queue MESSAGE_QUEUE_LEN,
                button1_prev_state = fst (fst (Button1_task_init lvl1 m)),
                button1_curr_state = fst (fst (Button1_task_init lvl1 m)),
                button1_pending = [],
                button2_prev_state = fst (fst (Button2_task_init lvl2 m)),
                button2_curr_state = fst (fst (Button2_task_init lvl2 m)),
                button2_pending = []\<rparr>)"

text \<open>The pointers a trace sends to the queue and those it receives from it, in order.\<close>

fun sent_ptrs :: "event list \<Rightarrow> Message_ptr list" where
  "sent_ptrs [] = []"
| "sent_ptrs (xQueueSend h p t # evs) = p # sent_ptrs evs"
| "sent_ptrs (_ # evs) = sent_ptrs evs"

fun received_ptrs :: "event list \<Rightarrow> Message_ptr list" where
  "received_ptrs [] = []"
| "received_ptrs (xQueueReceive h t p # evs) = p # received_ptrs evs"
| "received_ptrs (_ # evs) = received_ptrs evs"

text \<open>The text of a record: the first \<^verbatim>\<open>message_len\<close> bytes of its body, as the consumer prints it.\<close>

definition message_text :: "Message_st \<Rightarrow> string" where
  "message_text m = take (unat (message_len m)) (message m)"

text \<open>A memory for examples: every record all NUL, of the declared size.\<close>

definition blank_memory :: memory where
  "blank_memory = (\<lambda>p. \<lparr>message = replicate (MESSAGE_LEN + 1) NUL, message_len = 0\<rparr>)"

text \<open>The string literals the producers of the queue program copy into their records.\<close>

definition producer_literals :: "string list" where
  "producer_literals =
     [''Button1 Rising Edge\<newline>'', ''Button1 Falling Edge\<newline>'',
      ''Button2 Rising Edge\<newline>'', ''Button2 Falling Edge\<newline>'',
      ''Periodic Message\<newline>'']"

text \<open>Every record's body has the declared size, \<^verbatim>\<open>MESSAGE_LEN + 1\<close> bytes.\<close>

definition well_sized :: "memory \<Rightarrow> bool" where
  "well_sized m \<longleftrightarrow>
     length (message (m button1_message)) = MESSAGE_LEN + 1 \<and>
     length (message (m button2_message)) = MESSAGE_LEN + 1 \<and>
     length (message (m string_message)) = MESSAGE_LEN + 1"

text \<open>The pin reads and the delays of a trace, in order.\<close>

fun pin_reads :: "event list \<Rightarrow> (portX_t \<times> pinX_t \<times> pinState_t) list" where
  "pin_reads [] = []"
| "pin_reads (GPIO_read port pin lvl # evs) = (port, pin, lvl) # pin_reads evs"
| "pin_reads (_ # evs) = pin_reads evs"

fun delays :: "event list \<Rightarrow> TickType_t list" where
  "delays [] = []"
| "delays (vTaskDelay t # evs) = t # delays evs"
| "delays (_ # evs) = delays evs"

text \<open>
  What an iteration of a button task of the queue program hands to the queue: for each
  \<^verbatim>\<open>xQueueSend\<close> of the iteration, in order, the text of the record it points to, as the
  memory holds it when the iteration ends. The list is empty for an iteration that sends
  nothing.
\<close>

definition emitted :: "(pinState_t \<times> memory) \<times> event list \<Rightarrow> string list" where
  "emitted r = map (\<lambda>p. message_text (snd (fst r) p)) (sent_ptrs (snd r))"

text \<open>
  A button task of the queue program run over the levels its successive iterations read:
  what each iteration emits.
\<close>

fun edge_trace ::
  "(pinState_t \<Rightarrow> pinState_t \<times> memory \<Rightarrow> ((pinState_t \<times> memory) \<times> event list) option) \<Rightarrow>
   pinState_t list \<Rightarrow> pinState_t \<times> memory \<Rightarrow> string list list option" where
  "edge_trace body [] s = Some []"
| "edge_trace body (lvl # lvls) s =
     (case body lvl s of
        None \<Rightarrow> None
      | Some r \<Rightarrow>
          (case edge_trace body lvls (fst r) of
             None \<Rightarrow> None
           | Some es \<Rightarrow> Some (emitted r # es)))"

text \<open>
  A start of the queue program for examples: blank records, both buttons Low at the
  first read.
\<close>

definition example_start :: system where
  "example_start = the (system_init blank_memory PIN_IS_LOW PIN_IS_LOW)"

text \<open>The calls a blocked button task still has to make contain no receive.\<close>

definition sends_only :: "system \<Rightarrow> bool" where
  "sends_only s \<longleftrightarrow>
     received_ptrs (button1_pending s) = [] \<and> received_ptrs (button2_pending s) = []"

section \<open>Notions for stating the properties of the mutex program\<close>

text \<open>
  The index \<^verbatim>\<open>message_len - 2\<close> lies inside the message array, so that the assignment
  to \<^verbatim>\<open>message[message_len - 2]\<close> is defined.
\<close>

definition indexable :: "task_locals \<Rightarrow> bool" where
  "indexable l \<longleftrightarrow>
     2 \<le> unat (task_message_len l) \<and> unat (task_message_len l) - 2 < length (task_message l)"

text \<open>The message array with the character of \<open>k\<close> at index \<^verbatim>\<open>message_len - 2\<close>.\<close>

definition stamped :: "task_locals \<Rightarrow> 8 word \<Rightarrow> string" where
  "stamped l k = (task_message l)[unat (task_message_len l) - 2 := INT_TO_CHAR k]"

text \<open>
  The calls expected of the passes \<open>n\<close>, ..., 9 of a task's \<^verbatim>\<open>for\<close> loop, whose delay is
  \<open>d\<close>: each pass transmits the stamped message and delays.
\<close>

definition for_trace :: "TickType_t \<Rightarrow> task_locals \<Rightarrow> nat \<Rightarrow> event list" where
  "for_trace d l n =
     concat (map (\<lambda>k. [vSerialPutString (stamped l (of_nat k)) (task_message_len l), vTaskDelay d])
               [n..<10])"

text \<open>
  The calls expected of one iteration of the \<^verbatim>\<open>while(1)\<close> loop of a task of the mutex
  program, whose inner delay is \<open>d\<close>.
\<close>

definition iteration_trace :: "TickType_t \<Rightarrow> bool \<Rightarrow> task_locals \<Rightarrow> event list" where
  "iteration_trace d taken l =
     (if taken
      then [xSemaphoreTake mutex portMAX_DELAY True] @ for_trace d l 0
             @ [xSemaphoreGive mutex, vTaskDelay 1]
      else [xSemaphoreTake mutex portMAX_DELAY False, vTaskDelay 1])"

text \<open>
  Two states of a task's locals agree on the message length, on the size of the message
  array and on the array up to the one character that carries the message ID.
\<close>

definition same_message :: "task_locals \<Rightarrow> task_locals \<Rightarrow> bool" where
  "same_message l' l \<longleftrightarrow>
     task_message_len l' = task_message_len l \<and>
     length (task_message l') = length (task_message l) \<and>
     (\<forall>k. stamped l' k = stamped l k)"

text \<open>A call that can block is made with the infinite timeout.\<close>

definition waits_forever :: "event \<Rightarrow> bool" where
  "waits_forever e = (case blocking_timeout e of None \<Rightarrow> True | Some t \<Rightarrow> t = portMAX_DELAY)"

text \<open>The ten texts a task of the mutex program transmits in one pass of its loop.\<close>

definition numbered :: "string \<Rightarrow> string list" where
  "numbered prefix = map (\<lambda>k. prefix @ [''0123456789'' ! k] @ ''\<newline>'') [0..<10]"

section \<open>Properties of the LED task\<close>

text \<open>
  Claim C8. In an iteration of the LED task's loop in which \<^verbatim>\<open>toggle_rate\<close> is 0 the
  task leaves \<^verbatim>\<open>pin_state\<close> as it is (and suspends itself); in an iteration in which
  \<^verbatim>\<open>toggle_rate\<close> is not 0 it replaces \<^verbatim>\<open>pin_state\<close> by \<^verbatim>\<open>pin_state ^ 1\<close>, which
  differs from the old value. So the task changes the level exactly in the iterations
  with a nonzero toggle period.
\<close>

theorem C8_LED_toggles_iff_rate_nonzero:
  "(toggle_rate d = 0 \<longrightarrow>
      pin_state (fst (LED_task_code d)) = pin_state d \<and>
      snd (LED_task_code d) = [GPIO_write PORT_0 (pin_num d) (pin_state d), vTaskSuspend NULL]) \<and>
   (toggle_rate d \<noteq> 0 \<longrightarrow>
      pin_state (fst (LED_task_code d)) = pin_state d XOR 1 \<and>
      pin_state (fst (LED_task_code d)) \<noteq> pin_state d) \<and>
   (pin_state (fst (LED_task_code d)) \<noteq> pin_state d \<longleftrightarrow> toggle_rate d \<noteq> 0) \<and>
   toggle_rate (fst (LED_task_code d)) = toggle_rate d \<and>
   pin_num (fst (LED_task_code d)) = pin_num d"
proof -
  have flip: "pin_state d XOR 1 \<noteq> pin_state d"
  proof
    assume "pin_state d XOR 1 = pin_state d"
    then have "(pin_state d XOR 1) XOR pin_state d = pin_state d XOR pin_state d"
      by simp
    then show False
      by (simp add: xor.commute xor.left_commute)
  qed
  show ?thesis
    using flip by (simp add: LED_task_code_def NO_TOGGLE_def)
qed

theorem C8_LED_toggles_iff_rate_nonzero_witness:
  "pin_state (fst (LED_task_code \<lparr>pin_num = PIN1, pin_state = PIN_IS_HIGH, toggle_rate = 0\<rparr>))
     = PIN_IS_HIGH \<and>
   pin_state (fst (LED_task_code \<lparr>pin_num = PIN1, pin_state = PIN_IS_LOW, toggle_rate = 400\<rparr>))
     = PIN_IS_HIGH \<and>
   pin_state (fst (LED_task_code \<lparr>pin_num = PIN1, pin_state = PIN_IS_HIGH, toggle_rate = 100\<rparr>))
     = PIN_IS_LOW"
  using C8_LED_toggles_iff_rate_nonzero
          [of "\<lparr>pin_num = PIN1, pin_state = PIN_IS_HIGH, toggle_rate = 0\<rparr>"]
        C8_LED_toggles_iff_rate_nonzero
          [of "\<lparr>pin_num = PIN1, pin_state = PIN_IS_LOW, toggle_rate = 400\<rparr>"]
        C8_LED_toggles_iff_rate_nonzero
          [of "\<lparr>pin_num = PIN1, pin_state = PIN_IS_HIGH, toggle_rate = 100\<rparr>"]
  by (simp add: PIN_IS_HIGH_def PIN_IS_LOW_def)

section \<open>Properties of the button task of assignment 1\<close>

lemma Button_task_high_run:
  "fst (Button_task_run (replicate n PIN_IS_HIGH) (b, d)) =
     (b\<lparr>duration := duration b + 10 * of_nat n,
        pin0_prev_state := (if n = 0 then pin0_prev_state b else PIN_IS_HIGH)\<rparr>, d)"
proof (induction n arbitrary: b)
  case 0
  then show ?case by simp
next
  case (Suc n)
  then show ?case
    by (simp add: Button_task_code_def Let_def algebra_simps)
qed

text \<open>
  Claim C2. On a falling edge (the previous level is High and the level read is not High)
  the button task looks at the accumulated \<^verbatim>\<open>duration\<close> \<open>d\<close>: for \<open>d < 2000\<close> it sets
  \<^verbatim>\<open>toggle_rate\<close> to \<^verbatim>\<open>NO_TOGGLE\<close> and \<^verbatim>\<open>pin_state\<close> to Low and does not resume the
  LED task; for \<open>2000 \<le> d < 4000\<close> it sets \<^verbatim>\<open>toggle_rate\<close> to 400 and resumes the LED
  task; for \<open>4000 \<le> d\<close> it sets \<^verbatim>\<open>toggle_rate\<close> to 100 and resumes the LED task. In
  each case it resets \<^verbatim>\<open>duration\<close> and stores the level read. So 2000 falls in the
  middle bucket and 4000 in the last.
\<close>

theorem C2_duration_buckets:
  assumes "pin0_prev_state b = PIN_IS_HIGH" and "lvl \<noteq> PIN_IS_HIGH"
  shows "(duration b < 2000 \<longrightarrow>
            Button_task_code lvl (b, d) =
              ((b\<lparr>duration := 0, pin0_prev_state := lvl\<rparr>,
                d\<lparr>toggle_rate := NO_TOGGLE, pin_state := PIN_IS_LOW\<rparr>),
               [GPIO_read PORT_0 PIN0 lvl, vTaskDelay 10])) \<and>
         (2000 \<le> duration b \<and> duration b < 4000 \<longrightarrow>
            Button_task_code lvl (b, d) =
              ((b\<lparr>duration := 0, pin0_prev_state := lvl\<rparr>, d\<lparr>toggle_rate := 400\<rparr>),
               [GPIO_read PORT_0 PIN0 lvl, vTaskResume LED_handle, vTaskDelay 10])) \<and>
         (4000 \<le> duration b \<longrightarrow>
            Button_task_code lvl (b, d) =
              ((b\<lparr>duration := 0, pin0_prev_state := lvl\<rparr>, d\<lparr>toggle_rate := 100\<rparr>),
               [GPIO_read PORT_0 PIN0 lvl, vTaskResume LED_handle, vTaskDelay 10]))"
proof -
  have low: "duration b < 2000 \<Longrightarrow> \<not> 2000 \<le> duration b"
    by (simp add: not_le)
  have high: "4000 \<le> duration b \<Longrightarrow> \<not> duration b < 2000 \<and> \<not> duration b < 4000"
    by (auto simp: word_le_nat_alt word_less_nat_alt)
  have middle: "2000 \<le> duration b \<Longrightarrow> \<not> duration b < 2000"
    by (simp add: not_less)
  show ?thesis
    using assms low high middle by (simp add: Button_task_code_def Let_def)
qed

lemma Button_task_run_append:
  "fst (Button_task_run (xs @ ys) s) = fst (Button_task_run ys (fst (Button_task_run xs s)))"
  by (induction xs arbitrary: s) (simp_all add: Let_def)

text \<open>
  The accumulated \<^verbatim>\<open>duration\<close> is the hold time: after \<open>n\<close> successive High samples
  (10 ms apart, without overflow of the 32-bit counter) and one sample that is not High,
  the LED data is set by the bucket of \<open>10 * n\<close>.
\<close>

lemma Button_task_hold:
  assumes "duration b = 0" and "0 < n" and "10 * n < 2 ^ 32" and "lvl \<noteq> PIN_IS_HIGH"
  shows "fst (Button_task_run (replicate n PIN_IS_HIGH @ [lvl]) (b, d)) =
           (\<lparr>duration = 0, pin0_prev_state = lvl\<rparr>,
            if 10 * n < 2000 then d\<lparr>toggle_rate := NO_TOGGLE, pin_state := PIN_IS_LOW\<rparr>
            else if 10 * n < 4000 then d\<lparr>toggle_rate := 400\<rparr>
            else d\<lparr>toggle_rate := 100\<rparr>)"
proof -
  have "(10 * of_nat n :: 32 word) = of_nat (10 * n)"
    by simp
  then have u: "unat (10 * of_nat n :: 32 word) = 10 * n"
    using assms(3) by (simp only: unat_of_nat) simp
  have lt2: "(10 * of_nat n :: 32 word) < 2000 \<longleftrightarrow> 10 * n < 2000"
    using u by (simp add: word_less_nat_alt)
  have lt4: "(10 * of_nat n :: 32 word) < 4000 \<longleftrightarrow> 10 * n < 4000"
    using u by (simp add: word_less_nat_alt)
  have ge2: "(2000 :: 32 word) \<le> 10 * of_nat n \<longleftrightarrow> 2000 \<le> 10 * n"
    using u by (simp add: word_le_nat_alt)
  show ?thesis
    using assms(1,2,4) lt2 lt4 ge2
    by (simp add: Button_task_run_append Button_task_high_run Button_task_code_def Let_def)
qed

theorem C2_duration_buckets_witness:
  "Button_task_code PIN_IS_LOW
     (\<lparr>duration = 1990, pin0_prev_state = PIN_IS_HIGH\<rparr>,
      \<lparr>pin_num = PIN1, pin_state = PIN_IS_HIGH, toggle_rate = 100\<rparr>) =
     ((\<lparr>duration = 0, pin0_prev_state = PIN_IS_LOW\<rparr>,
       \<lparr>pin_num = PIN1, pin_state = PIN_IS_LOW, toggle_rate = NO_TOGGLE\<rparr>),
      [GPIO_read PORT_0 PIN0 PIN_IS_LOW, vTaskDelay 10]) \<and>
   Button_task_code PIN_IS_LOW
     (\<lparr>duration = 2000, pin0_prev_state = PIN_IS_HIGH\<rparr>,
      \<lparr>pin_num = PIN1, pin_state = PIN_IS_LOW, toggle_rate = NO_TOGGLE\<rparr>) =
     ((\<lparr>duration = 0, pin0_prev_state = PIN_IS_LOW\<rparr>,
       \<lparr>pin_num = PIN1, pin_state = PIN_IS_LOW, toggle_rate = 400\<rparr>),
      [GPIO_read PORT_0 PIN0 PIN_IS_LOW, vTaskResume LED_handle, vTaskDelay 10]) \<and>
   Button_task_code PIN_IS_LOW
     (\<lparr>duration = 4000, pin0_prev_state = PIN_IS_HIGH\<rparr>,
      \<lparr>pin_num = PIN1, pin_state = PIN_IS_LOW, toggle_rate = NO_TOGGLE\<rparr>) =
     ((\<lparr>duration = 0, pin0_prev_state = PIN_IS_LOW\<rparr>,
       \<lparr>pin_num = PIN1, pin_state = PIN_IS_LOW, toggle_rate = 100\<rparr>),
      [GPIO_read PORT_0 PIN0 PIN_IS_LOW, vTaskResume LED_handle, vTaskDelay 10])"
proof -
  have prev: "pin0_prev_state \<lparr>duration = x, pin0_prev_state = PIN_IS_HIGH\<rparr> = PIN_IS_HIGH"
    for x :: "32 word"
    by simp
  have lvl: "PIN_IS_LOW \<noteq> PIN_IS_HIGH"
    by (simp add: PIN_IS_LOW_def PIN_IS_HIGH_def)
  show ?thesis
    using C2_duration_buckets [OF prev lvl, of 1990 "\<lparr>pin_num = PIN1, pin_state = PIN_IS_HIGH, toggle_rate = 100\<rparr>"]
          C2_duration_buckets [OF prev lvl, of 2000 "\<lparr>pin_num = PIN1, pin_state = PIN_IS_LOW, toggle_rate = NO_TOGGLE\<rparr>"]
          C2_duration_buckets [OF prev lvl, of 4000 "\<lparr>pin_num = PIN1, pin_state = PIN_IS_LOW, toggle_rate = NO_TOGGLE\<rparr>"]
    by simp
qed

section \<open>Properties of the message records\<close>

lemma strlen_literal:
  "NUL \<notin> set lit \<Longrightarrow> strlen (lit @ NUL # rest) = Some (length lit)"
proof -
  assume "NUL \<notin> set lit"
  then have "takeWhile (\<lambda>c. c \<noteq> NUL) (lit @ NUL # rest) = lit"
    by (induction lit) auto
  then show ?thesis
    by (simp add: strlen_def)
qed

lemma write_message_fits:
  assumes "length lit \<le> MESSAGE_LEN" and "NUL \<notin> set lit"
    and "length (message m) = MESSAGE_LEN + 1"
  shows "write_message lit m =
           Some (m\<lparr>message := lit @ NUL # drop (length lit + 1) (message m),
                   message_len := of_nat (length lit)\<rparr>)"
  using assms by (simp add: write_message_def strcpy_def strlen_literal)

lemma producer_literals_short:
  "lit \<in> set producer_literals \<Longrightarrow> length lit \<le> MESSAGE_LEN \<and> NUL \<notin> set lit"
  by (auto simp: producer_literals_def MESSAGE_LEN_def NUL_def)

lemma unat_of_nat_len: "n \<le> MESSAGE_LEN \<Longrightarrow> unat (of_nat n :: 8 word) = n"
  by (simp add: MESSAGE_LEN_def unat_of_nat)

lemma write_message_literal:
  assumes "lit \<in> set producer_literals" and "length (message m) = MESSAGE_LEN + 1"
  shows "\<exists>m'. write_message lit m = Some m' \<and>
              length (message m') = MESSAGE_LEN + 1 \<and>
              unat (message_len m') = length lit \<and>
              unat (message_len m') \<le> MESSAGE_LEN \<and>
              message_text m' = lit"
proof -
  from assms(1) have short: "length lit \<le> MESSAGE_LEN" and nonul: "NUL \<notin> set lit"
    using producer_literals_short by blast+
  let ?m' = "m\<lparr>message := lit @ NUL # drop (length lit + 1) (message m),
                message_len := of_nat (length lit)\<rparr>"
  have w: "write_message lit m = Some ?m'"
    using short nonul assms(2) by (rule write_message_fits)
  have len: "unat (message_len ?m') = length lit"
    using short by (simp add: unat_of_nat_len)
  have size: "length (message ?m') = MESSAGE_LEN + 1"
    using short assms(2) by simp
  have printed: "message_text ?m' = lit"
    using len by (simp add: message_text_def)
  show ?thesis
    using short w len size printed by (intro conjI exI [of _ ?m']) simp_all
qed

lemma well_sized_blank: "well_sized blank_memory"
  by (simp add: well_sized_def blank_memory_def)

text \<open>
  Claim C10. Each of the five string literals the producers copy is at most
  \<^verbatim>\<open>MESSAGE_LEN\<close> (25) characters long. So, on records of the declared size, no copy
  overruns the \<^verbatim>\<open>MESSAGE_LEN + 1\<close> bytes of the body: every iteration of a button task
  and the initialisation of the string task complete, the bodies keep their size, and the
  \<^verbatim>\<open>message_len\<close> they store is at most \<^verbatim>\<open>MESSAGE_LEN\<close> and selects one of the literals.
\<close>

theorem C10_messages_fit:
  assumes "well_sized ms"
  shows "(\<forall>lit \<in> set producer_literals. length lit \<le> MESSAGE_LEN) \<and>
         (\<exists>r. Button1_task_code lvl (prev, ms) = Some r \<and> well_sized (snd (fst r)) \<and>
              (lvl \<noteq> prev \<longrightarrow>
                 unat (message_len (snd (fst r) button1_message)) \<le> MESSAGE_LEN \<and>
                 message_text (snd (fst r) button1_message) \<in> set producer_literals)) \<and>
         (\<exists>r. Button2_task_code lvl (prev, ms) = Some r \<and> well_sized (snd (fst r)) \<and>
              (lvl \<noteq> prev \<longrightarrow>
                 unat (message_len (snd (fst r) button2_message)) \<le> MESSAGE_LEN \<and>
                 message_text (snd (fst r) button2_message) \<in> set producer_literals)) \<and>
         (\<exists>m. String_task_init ms = Some m \<and> well_sized m \<and>
              unat (message_len (m string_message)) \<le> MESSAGE_LEN \<and>
              message_text (m string_message) \<in> set producer_literals)"
proof (intro conjI)
  show "\<forall>lit \<in> set producer_literals. length lit \<le> MESSAGE_LEN"
    using producer_literals_short by blast
next
  let ?lit = "if lvl = PIN_IS_HIGH then ''Button1 Rising Edge\<newline>'' else ''Button1 Falling Edge\<newline>''"
  have "?lit \<in> set producer_literals"
    by (simp add: producer_literals_def)
  moreover have "length (message (ms button1_message)) = MESSAGE_LEN + 1"
    using assms by (simp add: well_sized_def)
  ultimately obtain m' where "write_message ?lit (ms button1_message) = Some m'"
    and "length (message m') = MESSAGE_LEN + 1"
    and "unat (message_len m') \<le> MESSAGE_LEN" and "message_text m' = ?lit"
    using write_message_literal by blast
  then show "\<exists>r. Button1_task_code lvl (prev, ms) = Some r \<and> well_sized (snd (fst r)) \<and>
              (lvl \<noteq> prev \<longrightarrow>
                 unat (message_len (snd (fst r) button1_message)) \<le> MESSAGE_LEN \<and>
                 message_text (snd (fst r) button1_message) \<in> set producer_literals)"
    using assms by (auto simp: Button1_task_code_def Let_def well_sized_def producer_literals_def)
next
  let ?lit = "if lvl = PIN_IS_HIGH then ''Button2 Rising Edge\<newline>'' else ''Button2 Falling Edge\<newline>''"
  have "?lit \<in> set producer_literals"
    by (simp add: producer_literals_def)
  moreover have "length (message (ms button2_message)) = MESSAGE_LEN + 1"
    using assms by (simp add: well_sized_def)
  ultimately obtain m' where "write_message ?lit (ms button2_message) = Some m'"
    and "length (message m') = MESSAGE_LEN + 1"
    and "unat (message_len m') \<le> MESSAGE_LEN" and "message_text m' = ?lit"
    using write_message_literal by blast
  then show "\<exists>r. Button2_task_code lvl (prev, ms) = Some r \<and> well_sized (snd (fst r)) \<and>
              (lvl \<noteq> prev \<longrightarrow>
                 unat (message_len (snd (fst r) button2_message)) \<le> MESSAGE_LEN \<and>
                 message_text (snd (fst r) button2_message) \<in> set producer_literals)"
    using assms by (auto simp: Button2_task_code_def Let_def well_sized_def producer_literals_def)
next
  have "''Periodic Message\<newline>'' \<in> set producer_literals"
    by (simp add: producer_literals_def)
  moreover have "length (message (ms string_message)) = MESSAGE_LEN + 1"
    using assms by (simp add: well_sized_def)
  ultimately obtain m' where "write_message ''Periodic Message\<newline>'' (ms string_message) = Some m'"
    and "length (message m') = MESSAGE_LEN + 1"
    and "unat (message_len m') \<le> MESSAGE_LEN" and "message_text m' = ''Periodic Message\<newline>''"
    using write_message_literal by blast
  then show "\<exists>m. String_task_init ms = Some m \<and> well_sized m \<and>
              unat (message_len (m string_message)) \<le> MESSAGE_LEN \<and>
              message_text (m string_message) \<in> set producer_literals"
    using assms by (auto simp: String_task_init_def well_sized_def producer_literals_def)
qed

theorem C10_messages_fit_witness:
  "well_sized blank_memory \<and>
   (\<exists>r. Button1_task_code PIN_IS_HIGH (PIN_IS_LOW, blank_memory) = Some r \<and>
        unat (message_len (snd (fst r) button1_message)) \<le> MESSAGE_LEN) \<and>
   (\<exists>m. String_task_init blank_memory = Some m \<and>
        unat (message_len (m string_message)) \<le> MESSAGE_LEN)"
proof -
  have neq: "PIN_IS_HIGH \<noteq> PIN_IS_LOW"
    by (simp add: PIN_IS_LOW_def PIN_IS_HIGH_def)
  show ?thesis
    using C10_messages_fit [OF well_sized_blank, of PIN_IS_HIGH PIN_IS_LOW] neq well_sized_blank
    by blast
qed

section \<open>Single iterations of the tasks of the queue program\<close>

lemma Button1_edge:
  assumes "well_sized ms" and "lvl \<noteq> prev"
  shows "\<exists>m'. Button1_task_code lvl (prev, ms) =
                Some ((lvl, ms(button1_message := m')),
                      [GPIO_read PORT_0 PIN0 lvl,
                       xQueueSend message_queue button1_message portMAX_DELAY, vTaskDelay 1]) \<and>
              length (message m') = MESSAGE_LEN + 1 \<and>
              message_text m' =
                (if lvl = PIN_IS_HIGH then ''Button1 Rising Edge\<newline>''
                 else ''Button1 Falling Edge\<newline>'')"
proof -
  let ?lit = "if lvl = PIN_IS_HIGH then ''Button1 Rising Edge\<newline>'' else ''Button1 Falling Edge\<newline>''"
  have "?lit \<in> set producer_literals"
    by (simp add: producer_literals_def)
  moreover have "length (message (ms button1_message)) = MESSAGE_LEN + 1"
    using assms(1) by (simp add: well_sized_def)
  ultimately obtain m' where "write_message ?lit (ms button1_message) = Some m'"
    and "length (message m') = MESSAGE_LEN + 1" and "message_text m' = ?lit"
    using write_message_literal by blast
  then show ?thesis
    using assms(2) by (intro exI [of _ m']) (simp add: Button1_task_code_def Let_def)
qed

lemma Button1_no_edge:
  "Button1_task_code prev (prev, ms) =
     Some ((prev, ms), [GPIO_read PORT_0 PIN0 prev, vTaskDelay 1])"
  by (simp add: Button1_task_code_def Let_def)

lemma Button2_edge:
  assumes "well_sized ms" and "lvl \<noteq> prev"
  shows "\<exists>m'. Button2_task_code lvl (prev, ms) =
                Some ((lvl, ms(button2_message := m')),
                      [GPIO_read PORT_0 PIN1 lvl,
                       xQueueSend message_queue button2_message portMAX_DELAY, vTaskDelay 1]) \<and>
              length (message m') = MESSAGE_LEN + 1 \<and>
              message_text m' =
                (if lvl = PIN_IS_HIGH then ''Button2 Rising Edge\<newline>''
                 else ''Button2 Falling Edge\<newline>'')"
proof -
  let ?lit = "if lvl = PIN_IS_HIGH then ''Button2 Rising Edge\<newline>'' else ''Button2 Falling Edge\<newline>''"
  have "?lit \<in> set producer_literals"
    by (simp add: producer_literals_def)
  moreover have "length (message (ms button2_message)) = MESSAGE_LEN + 1"
    using assms(1) by (simp add: well_sized_def)
  ultimately obtain m' where "write_message ?lit (ms button2_message) = Some m'"
    and "length (message m') = MESSAGE_LEN + 1" and "message_text m' = ?lit"
    using write_message_literal by blast
  then show ?thesis
    using assms(2) by (intro exI [of _ m']) (simp add: Button2_task_code_def Let_def)
qed

lemma Button2_no_edge:
  "Button2_task_code prev (prev, ms) =
     Some ((prev, ms), [GPIO_read PORT_0 PIN1 prev, vTaskDelay 1])"
  by (simp add: Button2_task_code_def Let_def)

lemma well_sized_update:
  "well_sized ms \<Longrightarrow> length (message m') = MESSAGE_LEN + 1 \<Longrightarrow> well_sized (ms(p := m'))"
  by (simp add: well_sized_def)

section \<open>Projections of a trace distribute over concatenation\<close>

lemma sent_ptrs_append: "sent_ptrs (xs @ ys) = sent_ptrs xs @ sent_ptrs ys"
  by (induction xs rule: sent_ptrs.induct) simp_all

lemma received_ptrs_append: "received_ptrs (xs @ ys) = received_ptrs xs @ received_ptrs ys"
  by (induction xs rule: received_ptrs.induct) simp_all

lemma uart_output_append: "uart_output (xs @ ys) = uart_output xs @ uart_output ys"
  by (induction xs rule: uart_output.induct) simp_all

section \<open>Edge detection\<close>

lemma emitted_send:
  "emitted ((lvl, ms(p := m')), [GPIO_read port pin lvl, xQueueSend q p t, vTaskDelay n]) =
     [message_text m']"
  by (simp add: emitted_def)

lemma emitted_no_send:
  "emitted ((lvl, ms), [GPIO_read port pin lvl, vTaskDelay n]) = []"
  by (simp add: emitted_def)

lemma Button1_trace_low_high_high_low:
  assumes "well_sized ms"
  shows "edge_trace Button1_task_code [PIN_IS_HIGH, PIN_IS_HIGH, PIN_IS_LOW] (PIN_IS_LOW, ms) =
           Some [ [''Button1 Rising Edge\<newline>''], [], [''Button1 Falling Edge\<newline>''] ]"
proof -
  have neq: "PIN_IS_HIGH \<noteq> PIN_IS_LOW" "PIN_IS_LOW \<noteq> PIN_IS_HIGH"
    by (simp_all add: PIN_IS_LOW_def PIN_IS_HIGH_def)
  obtain m1 where s1: "Button1_task_code PIN_IS_HIGH (PIN_IS_LOW, ms) =
      Some ((PIN_IS_HIGH, ms(button1_message := m1)),
            [GPIO_read PORT_0 PIN0 PIN_IS_HIGH,
             xQueueSend message_queue button1_message portMAX_DELAY, vTaskDelay 1])"
    and size1: "length (message m1) = MESSAGE_LEN + 1"
    and text1: "message_text m1 = ''Button1 Rising Edge\<newline>''"
    using Button1_edge [OF assms neq(1)] by auto
  have ws1: "well_sized (ms(button1_message := m1))"
    using assms size1 by (rule well_sized_update)
  obtain m2 where s2: "Button1_task_code PIN_IS_LOW (PIN_IS_HIGH, ms(button1_message := m1)) =
      Some ((PIN_IS_LOW, ms(button1_message := m1, button1_message := m2)),
            [GPIO_read PORT_0 PIN0 PIN_IS_LOW,
             xQueueSend message_queue button1_message portMAX_DELAY, vTaskDelay 1])"
    and text2: "message_text m2 = ''Button1 Falling Edge\<newline>''"
    using Button1_edge [OF ws1 neq(2)] neq by auto
  show ?thesis
    using s1 s2 text1 text2
    by (simp add: Button1_no_edge emitted_send emitted_no_send del: fun_upd_upd)
qed

lemma Button2_trace_low_high_high_low:
  assumes "well_sized ms"
  shows "edge_trace Button2_task_code [PIN_IS_HIGH, PIN_IS_HIGH, PIN_IS_LOW] (PIN_IS_LOW, ms) =
           Some [ [''Button2 Rising Edge\<newline>''], [], [''Button2 Falling Edge\<newline>''] ]"
proof -
  have neq: "PIN_IS_HIGH \<noteq> PIN_IS_LOW" "PIN_IS_LOW \<noteq> PIN_IS_HIGH"
    by (simp_all add: PIN_IS_LOW_def PIN_IS_HIGH_def)
  obtain m1 where s1: "Button2_task_code PIN_IS_HIGH (PIN_IS_LOW, ms) =
      Some ((PIN_IS_HIGH, ms(button2_message := m1)),
            [GPIO_read PORT_0 PIN1 PIN_IS_HIGH,
             xQueueSend message_queue button2_message portMAX_DELAY, vTaskDelay 1])"
    and size1: "length (message m1) = MESSAGE_LEN + 1"
    and text1: "message_text m1 = ''Button2 Rising Edge\<newline>''"
    using Button2_edge [OF assms neq(1)] by auto
  have ws1: "well_sized (ms(button2_message := m1))"
    using assms size1 by (rule well_sized_update)
  obtain m2 where s2: "Button2_task_code PIN_IS_LOW (PIN_IS_HIGH, ms(button2_message := m1)) =
      Some ((PIN_IS_LOW, ms(button2_message := m1, button2_message := m2)),
            [GPIO_read PORT_0 PIN1 PIN_IS_LOW,
             xQueueSend message_queue button2_message portMAX_DELAY, vTaskDelay 1])"
    and text2: "message_text m2 = ''Button2 Falling Edge\<newline>''"
    using Button2_edge [OF ws1 neq(2)] neq by auto
  show ?thesis
    using s1 s2 text1 text2
    by (simp add: Button2_no_edge emitted_send emitted_no_send del: fun_upd_upd)
qed

lemma Button1_iteration:
  assumes "well_sized ms"
  shows "\<exists>r. Button1_task_code lvl (prev, ms) = Some r \<and> fst (fst r) = lvl \<and>
             (lvl = prev \<longrightarrow>
                snd (fst r) = ms \<and> snd r = [GPIO_read PORT_0 PIN0 lvl, vTaskDelay 1] \<and>
                emitted r = []) \<and>
             (lvl \<noteq> prev \<longrightarrow>
                snd r = [GPIO_read PORT_0 PIN0 lvl,
                         xQueueSend message_queue button1_message portMAX_DELAY, vTaskDelay 1] \<and>
                emitted r = [if lvl = PIN_IS_HIGH then ''Button1 Rising Edge\<newline>''
                             else ''Button1 Falling Edge\<newline>''])"
proof (cases "lvl = prev")
  case True
  then show ?thesis
    by (simp add: Button1_no_edge emitted_no_send)
next
  case False
  then obtain m' where "Button1_task_code lvl (prev, ms) =
      Some ((lvl, ms(button1_message := m')),
            [GPIO_read PORT_0 PIN0 lvl,
             xQueueSend message_queue button1_message portMAX_DELAY, vTaskDelay 1])"
    and "message_text m' =
           (if lvl = PIN_IS_HIGH then ''Button1 Rising Edge\<newline>''
            else ''Button1 Falling Edge\<newline>'')"
    using Button1_edge [OF assms] by blast
  then show ?thesis
    using False by (simp add: emitted_send)
qed

lemma Button2_iteration:
  assumes "well_sized ms"
  shows "\<exists>r. Button2_task_code lvl (prev, ms) = Some r \<and> fst (fst r) = lvl \<and>
             (lvl = prev \<longrightarrow>
                snd (fst r) = ms \<and> snd r = [GPIO_read PORT_0 PIN1 lvl, vTaskDelay 1] \<and>
                emitted r = []) \<and>
             (lvl \<noteq> prev \<longrightarrow>
                snd r = [GPIO_read PORT_0 PIN1 lvl,
                         xQueueSend message_queue button2_message portMAX_DELAY, vTaskDelay 1] \<and>
                emitted r = [if lvl = PIN_IS_HIGH then ''Button2 Rising Edge\<newline>''
                             else ''Button2 Falling Edge\<newline>''])"
proof (cases "lvl = prev")
  case True
  then show ?thesis
    by (simp add: Button2_no_edge emitted_no_send)
next
  case False
  then obtain m' where "Button2_task_code lvl (prev, ms) =
      Some ((lvl, ms(button2_message := m')),
            [GPIO_read PORT_0 PIN1 lvl,
             xQueueSend message_queue button2_message portMAX_DELAY, vTaskDelay 1])"
    and "message_text m' =
           (if lvl = PIN_IS_HIGH then ''Button2 Rising Edge\<newline>''
            else ''Button2 Falling Edge\<newline>'')"
    using Button2_edge [OF assms] by blast
  then show ?thesis
    using False by (simp add: emitted_send)
qed

lemma Button_task_iteration:
  "Button_task_code lvl (b, d) =
     ((b\<lparr>duration := (if lvl = PIN_IS_HIGH then duration b + 10 else 0),
         pin0_prev_state := lvl\<rparr>,
       if lvl \<noteq> PIN_IS_HIGH \<and> pin0_prev_state b = PIN_IS_HIGH
       then (if duration b < 2000 then d\<lparr>toggle_rate := NO_TOGGLE, pin_state := PIN_IS_LOW\<rparr>
             else if duration b < 4000 then d\<lparr>toggle_rate := 400\<rparr>
             else d\<lparr>toggle_rate := 100\<rparr>)
       else d),
      [GPIO_read PORT_0 PIN0 lvl]
        @ (if lvl \<noteq> PIN_IS_HIGH \<and> pin0_prev_state b = PIN_IS_HIGH \<and> 2000 \<le> duration b
           then [vTaskResume LED_handle] else [])
        @ [vTaskDelay 10])"
proof -
  have low: "duration b < 2000 \<Longrightarrow> \<not> 2000 \<le> duration b"
    by (simp add: not_le)
  have mid: "\<not> duration b < 2000 \<Longrightarrow> 2000 \<le> duration b"
    by (simp add: not_less)
  show ?thesis
    using low mid by (auto simp: Button_task_code_def Let_def)
qed

text \<open>
  Claim C3, as the code has it. An iteration of a button task of the queue program
  compares the level it reads with the stored previous level. When they are equal it
  reads, delays and sends nothing, and leaves the memory alone; when they differ it makes
  exactly one send, of its record, which then holds the Rising text when the new level is
  High and the Falling text otherwise. In both cases the level read becomes the stored
  previous level. For the levels Low, Low, High, High, Low (the first being the read
  before the loop, or all five read in the loop after a Low) such a task emits one Rising
  edge, at the third sample, one Falling edge, at the fifth, and nothing else.

  The button task of assignment 1 stores the level read in every iteration as well, but
  it reports no rising edge: it acts only when the stored level is High and the level
  read is not (its falling edge), where it sets the LED data by the bucket of the
  duration and resumes the LED task from 2000 on. In every other iteration, a rising edge
  included, it leaves the LED data alone and only reads and delays.
\<close>

theorem C3_edge_detection:
  assumes "well_sized ms"
  shows "(\<exists>r. Button1_task_code lvl (prev, ms) = Some r \<and> fst (fst r) = lvl \<and>
              (lvl = prev \<longrightarrow>
                 snd (fst r) = ms \<and> snd r = [GPIO_read PORT_0 PIN0 lvl, vTaskDelay 1] \<and>
                 emitted r = []) \<and>
              (lvl \<noteq> prev \<longrightarrow>
                 snd r = [GPIO_read PORT_0 PIN0 lvl,
                          xQueueSend message_queue button1_message portMAX_DELAY, vTaskDelay 1] \<and>
                 emitted r = [if lvl = PIN_IS_HIGH then ''Button1 Rising Edge\<newline>''
                              else ''Button1 Falling Edge\<newline>''])) \<and>
         (\<exists>r. Button2_task_code lvl (prev, ms) = Some r \<and> fst (fst r) = lvl \<and>
              (lvl = prev \<longrightarrow>
                 snd (fst r) = ms \<and> snd r = [GPIO_read PORT_0 PIN1 lvl, vTaskDelay 1] \<and>
                 emitted r = []) \<and>
              (lvl \<noteq> prev \<longrightarrow>
                 snd r = [GPIO_read PORT_0 PIN1 lvl,
                          xQueueSend message_queue button2_message portMAX_DELAY, vTaskDelay 1] \<and>
                 emitted r = [if lvl = PIN_IS_HIGH then ''Button2 Rising Edge\<newline>''
                              else ''Button2 Falling Edge\<newline>''])) \<and>
         edge_trace Button1_task_code [PIN_IS_LOW, PIN_IS_HIGH, PIN_IS_HIGH, PIN_IS_LOW]
             (fst (Button1_task_init PIN_IS_LOW ms)) =
           Some [ [], [''Button1 Rising Edge\<newline>''], [],
                 [''Button1 Falling Edge\<newline>''] ] \<and>
         edge_trace Button2_task_code [PIN_IS_LOW, PIN_IS_HIGH, PIN_IS_HIGH, PIN_IS_LOW]
             (fst (Button2_task_init PIN_IS_LOW ms)) =
           Some [ [], [''Button2 Rising Edge\<newline>''], [],
                 [''Button2 Falling Edge\<newline>''] ] \<and>
         edge_trace Button1_task_code
             [PIN_IS_LOW, PIN_IS_LOW, PIN_IS_HIGH, PIN_IS_HIGH, PIN_IS_LOW] (PIN_IS_LOW, ms) =
           Some [ [], [], [''Button1 Rising Edge\<newline>''], [],
                 [''Button1 Falling Edge\<newline>''] ] \<and>
         Button_task_code lvl (b, d) =
           ((b\<lparr>duration := (if lvl = PIN_IS_HIGH then duration b + 10 else 0),
               pin0_prev_state := lvl\<rparr>,
             if lvl \<noteq> PIN_IS_HIGH \<and> pin0_prev_state b = PIN_IS_HIGH
             then (if duration b < 2000
                   then d\<lparr>toggle_rate := NO_TOGGLE, pin_state := PIN_IS_LOW\<rparr>
                   else if duration b < 4000 then d\<lparr>toggle_rate := 400\<rparr>
                   else d\<lparr>toggle_rate := 100\<rparr>)
             else d),
            [GPIO_read PORT_0 PIN0 lvl]
              @ (if lvl \<noteq> PIN_IS_HIGH \<and> pin0_prev_state b = PIN_IS_HIGH \<and> 2000 \<le> duration b
                 then [vTaskResume LED_handle] else [])
              @ [vTaskDelay 10])"
proof (intro conjI)
  show "\<exists>r. Button1_task_code lvl (prev, ms) = Some r \<and> fst (fst r) = lvl \<and>
              (lvl = prev \<longrightarrow>
                 snd (fst r) = ms \<and> snd r = [GPIO_read PORT_0 PIN0 lvl, vTaskDelay 1] \<and>
                 emitted r = []) \<and>
              (lvl \<noteq> prev \<longrightarrow>
                 snd r = [GPIO_read PORT_0 PIN0 lvl,
                          xQueueSend message_queue button1_message portMAX_DELAY, vTaskDelay 1] \<and>
                 emitted r = [if lvl = PIN_IS_HIGH then ''Button1 Rising Edge\<newline>''
                              else ''Button1 Falling Edge\<newline>''])"
    using assms by (rule Button1_iteration)
  show "\<exists>r. Button2_task_code lvl (prev, ms) = Some r \<and> fst (fst r) = lvl \<and>
              (lvl = prev \<longrightarrow>
                 snd (fst r) = ms \<and> snd r = [GPIO_read PORT_0 PIN1 lvl, vTaskDelay 1] \<and>
                 emitted r = []) \<and>
              (lvl \<noteq> prev \<longrightarrow>
                 snd r = [GPIO_read PORT_0 PIN1 lvl,
                          xQueueSend message_queue button2_message portMAX_DELAY, vTaskDelay 1] \<and>
                 emitted r = [if lvl = PIN_IS_HIGH then ''Button2 Rising Edge\<newline>''
                              else ''Button2 Falling Edge\<newline>''])"
    using assms by (rule Button2_iteration)
  show "edge_trace Button1_task_code [PIN_IS_LOW, PIN_IS_HIGH, PIN_IS_HIGH, PIN_IS_LOW]
             (fst (Button1_task_init PIN_IS_LOW ms)) =
           Some [ [], [''Button1 Rising Edge\<newline>''], [],
                 [''Button1 Falling Edge\<newline>''] ]"
    using Button1_trace_low_high_high_low [OF assms]
    by (simp add: Button1_task_init_def Button1_no_edge emitted_no_send)
  show "edge_trace Button2_task_code [PIN_IS_LOW, PIN_IS_HIGH, PIN_IS_HIGH, PIN_IS_LOW]
             (fst (Button2_task_init PIN_IS_LOW ms)) =
           Some [ [], [''Button2 Rising Edge\<newline>''], [],
                 [''Button2 Falling Edge\<newline>''] ]"
    using Button2_trace_low_high_high_low [OF assms]
    by (simp add: Button2_task_init_def Button2_no_edge emitted_no_send)
  show "edge_trace Button1_task_code
             [PIN_IS_LOW, PIN_IS_LOW, PIN_IS_HIGH, PIN_IS_HIGH, PIN_IS_LOW] (PIN_IS_LOW, ms) =
           Some [ [], [], [''Button1 Rising Edge\<newline>''], [],
                 [''Button1 Falling Edge\<newline>''] ]"
    using Button1_trace_low_high_high_low [OF assms]
    by (simp add: Button1_no_edge emitted_no_send)
  show "Button_task_code lvl (b, d) =
           ((b\<lparr>duration := (if lvl = PIN_IS_HIGH then duration b + 10 else 0),
               pin0_prev_state := lvl\<rparr>,
             if lvl \<noteq> PIN_IS_HIGH \<and> pin0_prev_state b = PIN_IS_HIGH
             then (if duration b < 2000
                   then d\<lparr>toggle_rate := NO_TOGGLE, pin_state := PIN_IS_LOW\<rparr>
                   else if duration b < 4000 then d\<lparr>toggle_rate := 400\<rparr>
                   else d\<lparr>toggle_rate := 100\<rparr>)
             else d),
            [GPIO_read PORT_0 PIN0 lvl]
              @ (if lvl \<noteq> PIN_IS_HIGH \<and> pin0_prev_state b = PIN_IS_HIGH \<and> 2000 \<le> duration b
                 then [vTaskResume LED_handle] else [])
              @ [vTaskDelay 10])"
    by (rule Button_task_iteration)
qed

theorem C3_edge_detection_witness:
  "well_sized blank_memory \<and>
   (\<exists>r. Button1_task_code PIN_IS_HIGH (PIN_IS_LOW, blank_memory) = Some r \<and>
        snd r = [GPIO_read PORT_0 PIN0 PIN_IS_HIGH,
                 xQueueSend message_queue button1_message portMAX_DELAY, vTaskDelay 1] \<and>
        emitted r = [''Button1 Rising Edge\<newline>'']) \<and>
   (\<exists>r. Button2_task_code PIN_IS_LOW (PIN_IS_HIGH, blank_memory) = Some r \<and>
        emitted r = [''Button2 Falling Edge\<newline>'']) \<and>
   (\<exists>r. Button1_task_code PIN_IS_HIGH (PIN_IS_HIGH, blank_memory) = Some r \<and>
        snd (fst r) = blank_memory \<and> emitted r = []) \<and>
   edge_trace Button1_task_code [PIN_IS_LOW, PIN_IS_HIGH, PIN_IS_HIGH, PIN_IS_LOW]
       (fst (Button1_task_init PIN_IS_LOW blank_memory)) =
     Some [ [], [''Button1 Rising Edge\<newline>''], [], [''Button1 Falling Edge\<newline>''] ]"
proof -
  have neq: "PIN_IS_HIGH \<noteq> PIN_IS_LOW" "PIN_IS_LOW \<noteq> PIN_IS_HIGH"
    by (simp_all add: PIN_IS_LOW_def PIN_IS_HIGH_def)
  from C3_edge_detection [OF well_sized_blank, of PIN_IS_HIGH PIN_IS_LOW, THEN conjunct1]
  obtain r1 where r1: "Button1_task_code PIN_IS_HIGH (PIN_IS_LOW, blank_memory) = Some r1"
    and e1: "PIN_IS_HIGH \<noteq> PIN_IS_LOW \<longrightarrow>
               snd r1 = [GPIO_read PORT_0 PIN0 PIN_IS_HIGH,
                         xQueueSend message_queue button1_message portMAX_DELAY, vTaskDelay 1] \<and>
               emitted r1 = [if PIN_IS_HIGH = PIN_IS_HIGH then ''Button1 Rising Edge\<newline>''
                             else ''Button1 Falling Edge\<newline>'']"
    by blast
  have rising: "\<exists>r. Button1_task_code PIN_IS_HIGH (PIN_IS_LOW, blank_memory) = Some r \<and>
        snd r = [GPIO_read PORT_0 PIN0 PIN_IS_HIGH,
                 xQueueSend message_queue button1_message portMAX_DELAY, vTaskDelay 1] \<and>
        emitted r = [''Button1 Rising Edge\<newline>'']"
    using r1 e1 neq by simp
  from C3_edge_detection [OF well_sized_blank, of PIN_IS_LOW PIN_IS_HIGH,
      THEN conjunct2, THEN conjunct1]
  obtain r2 where r2: "Button2_task_code PIN_IS_LOW (PIN_IS_HIGH, blank_memory) = Some r2"
    and e2: "PIN_IS_LOW \<noteq> PIN_IS_HIGH \<longrightarrow>
               snd r2 = [GPIO_read PORT_0 PIN1 PIN_IS_LOW,
                         xQueueSend message_queue button2_message portMAX_DELAY, vTaskDelay 1] \<and>
               emitted r2 = [if PIN_IS_LOW = PIN_IS_HIGH then ''Button2 Rising Edge\<newline>''
                             else ''Button2 Falling Edge\<newline>'']"
    by blast
  have falling: "\<exists>r. Button2_task_code PIN_IS_LOW (PIN_IS_HIGH, blank_memory) = Some r \<and>
        emitted r = [''Button2 Falling Edge\<newline>'']"
    using r2 e2 neq by simp
  from C3_edge_detection [OF well_sized_blank, of PIN_IS_HIGH PIN_IS_HIGH, THEN conjunct1]
  obtain r3 where r3: "Button1_task_code PIN_IS_HIGH (PIN_IS_HIGH, blank_memory) = Some r3"
    and e3: "PIN_IS_HIGH = PIN_IS_HIGH \<longrightarrow>
               snd (fst r3) = blank_memory \<and>
               snd r3 = [GPIO_read PORT_0 PIN0 PIN_IS_HIGH, vTaskDelay 1] \<and> emitted r3 = []"
    by blast
  have none: "\<exists>r. Button1_task_code PIN_IS_HIGH (PIN_IS_HIGH, blank_memory) = Some r \<and>
        snd (fst r) = blank_memory \<and> emitted r = []"
    using r3 e3 by simp
  have trace: "edge_trace Button1_task_code [PIN_IS_LOW, PIN_IS_HIGH, PIN_IS_HIGH, PIN_IS_LOW]
       (fst (Button1_task_init PIN_IS_LOW blank_memory)) =
     Some [ [], [''Button1 Rising Edge\<newline>''], [], [''Button1 Falling Edge\<newline>''] ]"
    by (rule C3_edge_detection [OF well_sized_blank, THEN conjunct2, THEN conjunct2,
          THEN conjunct1])
  show ?thesis
    using well_sized_blank rising falling none trace by (intro conjI)
qed

text \<open>
  The claim as stated fails on the button task of assignment 1. With Low stored and High
  read the levels differ, yet the iteration only reads the pin, adds 10 to the duration
  and delays: it makes no other call and leaves the LED data as it was, so no rising edge
  is reported. Over the samples Low, Low, High, High, Low (the first read before the
  loop) the only thing the task does besides reading and delaying is the falling-edge
  action at the last sample.
\<close>

theorem C3_counterexample:
  "PIN_IS_HIGH \<noteq> PIN_IS_LOW \<and>
   Button_task_code PIN_IS_HIGH
     (\<lparr>duration = 0, pin0_prev_state = PIN_IS_LOW\<rparr>,
      \<lparr>pin_num = PIN1, pin_state = PIN_IS_HIGH, toggle_rate = 400\<rparr>) =
     ((\<lparr>duration = 10, pin0_prev_state = PIN_IS_HIGH\<rparr>,
       \<lparr>pin_num = PIN1, pin_state = PIN_IS_HIGH, toggle_rate = 400\<rparr>),
      [GPIO_read PORT_0 PIN0 PIN_IS_HIGH, vTaskDelay 10]) \<and>
   Button_task_run [PIN_IS_LOW, PIN_IS_HIGH, PIN_IS_HIGH, PIN_IS_LOW]
     (fst (Button_task_init PIN_IS_LOW),
      \<lparr>pin_num = PIN1, pin_state = PIN_IS_HIGH, toggle_rate = 400\<rparr>) =
     ((\<lparr>duration = 0, pin0_prev_state = PIN_IS_LOW\<rparr>,
       \<lparr>pin_num = PIN1, pin_state = PIN_IS_LOW, toggle_rate = NO_TOGGLE\<rparr>),
      [GPIO_read PORT_0 PIN0 PIN_IS_LOW, vTaskDelay 10,
       GPIO_read PORT_0 PIN0 PIN_IS_HIGH, vTaskDelay 10,
       GPIO_read PORT_0 PIN0 PIN_IS_HIGH, vTaskDelay 10,
       GPIO_read PORT_0 PIN0 PIN_IS_LOW, vTaskDelay 10])"
  by (simp add: Button_task_code_def Button_task_init_def Let_def
      PIN_IS_HIGH_def PIN_IS_LOW_def NO_TOGGLE_def)

section \<open>Sampling cadence\<close>

text \<open>
  Claim C9, as the code has it. Every iteration of a sampling task reads its pin exactly
  once, first thing, and ends with exactly one delay. The delay is 10 ticks in the button
  task of assignment 1 and 1 tick in the two button tasks of the queue program.
\<close>

theorem C9_one_read_one_delay:
  assumes "well_sized ms"
  shows "pin_reads (snd (Button_task_code lvl s)) = [(PORT_0, PIN0, lvl)] \<and>
         delays (snd (Button_task_code lvl s)) = [10] \<and>
         hd (snd (Button_task_code lvl s)) = GPIO_read PORT_0 PIN0 lvl \<and>
         last (snd (Button_task_code lvl s)) = vTaskDelay 10 \<and>
         (\<exists>r. Button1_task_code lvl (prev, ms) = Some r \<and>
              pin_reads (snd r) = [(PORT_0, PIN0, lvl)] \<and> delays (snd r) = [1] \<and>
              hd (snd r) = GPIO_read PORT_0 PIN0 lvl \<and> last (snd r) = vTaskDelay 1) \<and>
         (\<exists>r. Button2_task_code lvl (prev, ms) = Some r \<and>
              pin_reads (snd r) = [(PORT_0, PIN1, lvl)] \<and> delays (snd r) = [1] \<and>
              hd (snd r) = GPIO_read PORT_0 PIN1 lvl \<and> last (snd r) = vTaskDelay 1)"
proof (intro conjI)
  show "pin_reads (snd (Button_task_code lvl s)) = [(PORT_0, PIN0, lvl)]"
    by (simp add: Button_task_code_def Let_def)
  show "delays (snd (Button_task_code lvl s)) = [10]"
    by (simp add: Button_task_code_def Let_def)
  show "hd (snd (Button_task_code lvl s)) = GPIO_read PORT_0 PIN0 lvl"
    by (simp add: Button_task_code_def Let_def)
  show "last (snd (Button_task_code lvl s)) = vTaskDelay 10"
    by (simp add: Button_task_code_def Let_def)
  show "\<exists>r. Button1_task_code lvl (prev, ms) = Some r \<and>
              pin_reads (snd r) = [(PORT_0, PIN0, lvl)] \<and> delays (snd r) = [1] \<and>
              hd (snd r) = GPIO_read PORT_0 PIN0 lvl \<and> last (snd r) = vTaskDelay 1"
  proof (cases "lvl = prev")
    case True
    then show ?thesis
      by (simp add: Button1_no_edge)
  next
    case False
    then obtain m' where "Button1_task_code lvl (prev, ms) =
        Some ((lvl, ms(button1_message := m')),
              [GPIO_read PORT_0 PIN0 lvl,
               xQueueSend message_queue button1_message portMAX_DELAY, vTaskDelay 1])"
      using Button1_edge [OF assms] by blast
    then show ?thesis
      by simp
  qed
  show "\<exists>r. Button2_task_code lvl (prev, ms) = Some r \<and>
              pin_reads (snd r) = [(PORT_0, PIN1, lvl)] \<and> delays (snd r) = [1] \<and>
              hd (snd r) = GPIO_read PORT_0 PIN1 lvl \<and> last (snd r) = vTaskDelay 1"
  proof (cases "lvl = prev")
    case True
    then show ?thesis
      by (simp add: Button2_no_edge)
  next
    case False
    then obtain m' where "Button2_task_code lvl (prev, ms) =
        Some ((lvl, ms(button2_message := m')),
              [GPIO_read PORT_0 PIN1 lvl,
               xQueueSend message_queue button2_message portMAX_DELAY, vTaskDelay 1])"
      using Button2_edge [OF assms] by blast
    then show ?thesis
      by simp
  qed
qed

theorem C9_one_read_one_delay_witness:
  "well_sized blank_memory \<and>
   delays (snd (Button_task_code PIN_IS_HIGH
                  (\<lparr>duration = 0, pin0_prev_state = PIN_IS_LOW\<rparr>,
                   \<lparr>pin_num = PIN1, pin_state = PIN_IS_LOW, toggle_rate = NO_TOGGLE\<rparr>))) = [10] \<and>
   (\<exists>r. Button1_task_code PIN_IS_HIGH (PIN_IS_LOW, blank_memory) = Some r \<and>
        pin_reads (snd r) = [(PORT_0, PIN0, PIN_IS_HIGH)] \<and> delays (snd r) = [1])"
  using C9_one_read_one_delay [OF well_sized_blank, of PIN_IS_HIGH
          "(\<lparr>duration = 0, pin0_prev_state = PIN_IS_LOW\<rparr>,
            \<lparr>pin_num = PIN1, pin_state = PIN_IS_LOW, toggle_rate = NO_TOGGLE\<rparr>)" PIN_IS_LOW]
        well_sized_blank
  by blast

text \<open>
  The claim as stated fails on the queue program: an iteration of its first button task
  delays 1 tick, not 10.
\<close>

theorem C9_counterexample:
  "Button1_task_code PIN_IS_LOW (PIN_IS_LOW, blank_memory) =
     Some ((PIN_IS_LOW, blank_memory), [GPIO_read PORT_0 PIN0 PIN_IS_LOW, vTaskDelay 1]) \<and>
   delays [GPIO_read PORT_0 PIN0 PIN_IS_LOW, vTaskDelay 1] \<noteq> [10]"
  by (simp add: Button1_no_edge)

section \<open>The channel is first-in first-out\<close>

lemma channel_run_append:
  "channel_run (cs @ ds) q =
     (case channel_run cs q of
        None \<Rightarrow> None
      | Some r \<Rightarrow>
          (case channel_run ds (snd r) of
             None \<Rightarrow> None
           | Some r' \<Rightarrow> Some (fst r @ fst r', snd r')))"
proof (induction cs arbitrary: q)
  case Nil
  then show ?case by (simp split: option.splits)
next
  case (Cons c cs)
  then show ?case
    by (cases c) (simp_all split: option.splits)
qed

lemma channel_run_sends:
  "length (items q) + length xs \<le> capacity q \<Longrightarrow>
   channel_run (map Send xs) q = Some ([], q\<lparr>items := items q @ xs\<rparr>)"
proof (induction xs arbitrary: q)
  case Nil
  then show ?case by simp
next
  case (Cons x xs)
  from Cons.prems have "length (items q) < capacity q"
    by simp
  then have "send q x = Some (q\<lparr>items := items q @ [x]\<rparr>)"
    by (simp add: send_def)
  moreover have "channel_run (map Send xs) (q\<lparr>items := items q @ [x]\<rparr>) =
      Some ([], q\<lparr>items := items q @ x # xs\<rparr>)"
    using Cons.IH [of "q\<lparr>items := items q @ [x]\<rparr>"] Cons.prems by simp
  ultimately show ?case by simp
qed

lemma channel_run_receives:
  "items q = xs @ ys \<Longrightarrow>
   channel_run (replicate (length xs) Receive) q = Some (xs, q\<lparr>items := ys\<rparr>)"
proof (induction xs arbitrary: q)
  case Nil
  then show ?case by simp
next
  case (Cons x xs)
  then have "receive q = Some (x, q\<lparr>items := xs @ ys\<rparr>)"
    by (simp add: receive_def)
  moreover have "channel_run (replicate (length xs) Receive) (q\<lparr>items := xs @ ys\<rparr>) =
      Some (xs, q\<lparr>items := ys\<rparr>)"
    using Cons.IH [of "q\<lparr>items := xs @ ys\<rparr>"] by simp
  ultimately show ?case by simp
qed

lemma channel_run_round:
  assumes "items q = []" and "length xs \<le> capacity q"
  shows "channel_run (send_round xs) q = Some (xs, q)"
proof -
  have "channel_run (map Send xs) q = Some ([], q\<lparr>items := xs\<rparr>)"
    using channel_run_sends [of q xs] assms by simp
  moreover have "channel_run (replicate (length xs) Receive) (q\<lparr>items := xs\<rparr>) = Some (xs, q)"
    using channel_run_receives [of "q\<lparr>items := xs\<rparr>" xs "[]"] assms(1) by simp
  ultimately show ?thesis
    by (simp add: send_round_def channel_run_append)
qed

lemma channel_run_rounds:
  assumes "items q = []" and "\<forall>b \<in> set bs. length b \<le> capacity q"
  shows "channel_run (rounds bs) q = Some (concat bs, q)"
  using assms(2)
proof (induction bs)
  case Nil
  then show ?case by (simp add: rounds_def)
next
  case (Cons b bs)
  then have "channel_run (send_round b) q = Some (b, q)"
    using assms(1) by (simp add: channel_run_round)
  moreover have "channel_run (rounds bs) q = Some (concat bs, q)"
    using Cons by simp
  moreover have "rounds (b # bs) = send_round b @ rounds bs"
    by (simp add: rounds_def)
  ultimately show ?case
    by (simp add: channel_run_append)
qed

lemma sends_of_append: "sends_of (cs @ ds) = sends_of cs @ sends_of ds"
  by (induction cs rule: sends_of.induct) simp_all

lemma sends_of_round: "sends_of (send_round xs) = xs"
proof -
  have "sends_of (map Send xs) = xs"
    by (induction xs) simp_all
  moreover have "sends_of (replicate n Receive) = ([] :: 'a list)" for n
    by (induction n) simp_all
  ultimately show ?thesis
    by (simp add: send_round_def sends_of_append)
qed

lemma sends_of_rounds: "sends_of (rounds bs) = concat bs"
  by (induction bs) (simp_all add: rounds_def sends_of_append sends_of_round)

lemma channel_run_fifo:
  "channel_run cs q = Some (rcvd, q') \<Longrightarrow> items q @ sends_of cs = rcvd @ items q'"
proof (induction cs arbitrary: q rcvd)
  case Nil
  then show ?case by simp
next
  case (Cons c cs)
  show ?case
  proof (cases c)
    case (Send x)
    with Cons.prems obtain q1 where s: "send q x = Some q1"
      and r: "channel_run cs q1 = Some (rcvd, q')"
      by (auto split: option.splits)
    from s have "items q1 = items q @ [x]"
      by (auto simp: send_def split: if_splits)
    with Cons.IH [OF r] Send show ?thesis by simp
  next
    case Receive
    with Cons.prems obtain x q1 rest where s: "receive q = Some (x, q1)"
      and r: "channel_run cs q1 = Some (rest, q')" and rc: "rcvd = x # rest"
      by (auto split: option.splits)
    from s have "items q = x # items q1"
      by (auto simp: receive_def split: list.splits)
    with Cons.IH [OF r] Receive rc show ?thesis by simp
  qed
qed

text \<open>
  Claim C1. On a channel of capacity \<open>n\<close> that starts empty, a sequence of rounds, each a
  batch of at most \<open>n\<close> sends followed by the receives that drain it, runs without any
  call blocking, and the receives return exactly the items sent, in the order of the
  sends. More generally, whenever a sequence of sends and receives on such a channel runs
  without blocking, the items sent are the items received followed by the items still
  queued, in that order.
\<close>

theorem C1_channel_fifo:
  "((\<forall>b \<in> set bs. length b \<le> n) \<longrightarrow>
      channel_run (rounds bs) (create_queue n) = Some (concat bs, create_queue n) \<and>
      sends_of (rounds bs) = concat bs) \<and>
   (channel_run cs (create_queue n) = Some (rcvd, q) \<longrightarrow> sends_of cs = rcvd @ items q)"
proof (intro conjI impI)
  assume "\<forall>b \<in> set bs. length b \<le> n"
  then show "channel_run (rounds bs) (create_queue n) = Some (concat bs, create_queue n)"
    using channel_run_rounds [of "create_queue n" bs] by (simp add: create_queue_def)
next
  show "sends_of (rounds bs) = concat bs"
    by (rule sends_of_rounds)
next
  assume "channel_run cs (create_queue n) = Some (rcvd, q)"
  then show "sends_of cs = rcvd @ items q"
    using channel_run_fifo [of cs "create_queue n" rcvd q] by (simp add: create_queue_def)
qed

theorem C1_channel_fifo_witness:
  "channel_run [Send ''A'', Send ''B'', Send ''C'', Receive, Receive, Receive]
     (create_queue MESSAGE_QUEUE_LEN) =
     Some ([''A'', ''B'', ''C''], create_queue MESSAGE_QUEUE_LEN) \<and>
   sends_of [Send ''A'', Send ''B'', Send ''C'', Receive, Receive, Receive] =
     [''A'', ''B'', ''C''] \<and>
   channel_run [Send ''A'', Send ''B'', Receive, Send ''C''] (create_queue MESSAGE_QUEUE_LEN) =
     Some ([''A''], \<lparr>items = [''B'', ''C''], capacity = MESSAGE_QUEUE_LEN\<rparr>)"
proof -
  have run: "channel_run [Send ''A'', Send ''B'', Receive, Send ''C''] (create_queue MESSAGE_QUEUE_LEN) =
     Some ([''A''], \<lparr>items = [''B'', ''C''], capacity = MESSAGE_QUEUE_LEN\<rparr>)"
    by (simp add: create_queue_def send_def receive_def MESSAGE_QUEUE_LEN_def)
  show ?thesis
    using C1_channel_fifo [of "[''A'', ''B'', ''C''] # []" MESSAGE_QUEUE_LEN
            "[Send ''A'', Send ''B'', Receive, Send ''C'']" "[''A'']"
            "\<lparr>items = [''B'', ''C''], capacity = MESSAGE_QUEUE_LEN\<rparr>"] run
    by (simp add: rounds_def send_round_def MESSAGE_QUEUE_LEN_def)
qed

section \<open>Message records and the queue of pointers to them\<close>

lemma enqueue_sends_items:
  "enqueue_sends evs q = Some q' \<Longrightarrow> items q' = items q @ sent_ptrs evs"
proof (induction evs q rule: enqueue_sends.induct)
  case (1 q)
  then show ?case by simp
next
  case (2 h p t evs q)
  then obtain q1 where s: "send q p = Some q1" and r: "enqueue_sends evs q1 = Some q'"
    by (auto split: option.splits)
  from s have "items q1 = items q @ [p]"
    by (auto simp: send_def split: if_splits)
  with "2.IH" [OF s r] show ?case by simp
qed simp_all

lemma sent_ptrs_before_send: "sent_ptrs (before_send evs) = []"
  by (induction evs rule: before_send.induct) simp_all

lemma Button1_code_frame:
  assumes "Button1_task_code lvl (prev, m) = Some ((prev', m'), evs)"
  shows "m' button2_message = m button2_message \<and> m' string_message = m string_message \<and>
         (lvl = prev \<longrightarrow> m' = m) \<and> prev' = lvl \<and>
         received_ptrs evs = [] \<and> received_ptrs (before_send evs) = [] \<and>
         received_ptrs (from_send evs) = []"
  using assms
  by (auto simp: Button1_task_code_def Let_def split: option.splits if_splits)

lemma Button2_code_frame:
  assumes "Button2_task_code lvl (prev, m) = Some ((prev', m'), evs)"
  shows "m' button1_message = m button1_message \<and> m' string_message = m string_message \<and>
         (lvl = prev \<longrightarrow> m' = m) \<and> prev' = lvl \<and>
         received_ptrs evs = [] \<and> received_ptrs (before_send evs) = [] \<and>
         received_ptrs (from_send evs) = []"
  using assms
  by (auto simp: Button2_task_code_def Let_def split: option.splits if_splits)

lemma Button1_step_frame:
  assumes "system_step (Button1_runs lvl) s = Some (s', evs)"
  shows "mem s' string_message = mem s string_message \<and>
         mem s' button2_message = mem s button2_message \<and>
         (button1_pending s \<noteq> [] \<or> lvl = button1_prev_state s \<longrightarrow> mem s' = mem s) \<and>
         (sends_only s \<longrightarrow>
            sends_only s' \<and>
            items (chan s) @ sent_ptrs evs = received_ptrs evs @ items (chan s'))"
proof (cases "button1_pending s = []")
  case False
  with assms obtain q where q: "enqueue_sends (button1_pending s) (chan s) = Some q"
    and s': "s' = s\<lparr>chan := q, button1_prev_state := button1_curr_state s,
                    button1_pending := []\<rparr>"
    and evs: "evs = button1_pending s"
    by (auto split: option.splits)
  from enqueue_sends_items [OF q] show ?thesis
    using False s' evs by (simp add: sends_only_def)
next
  case True
  with assms obtain r where code: "Button1_task_code lvl (button1_prev_state s, mem s) = Some r"
    by (auto split: option.splits)
  obtain p' m' es where r: "r = ((p', m'), es)"
    by (metis prod.collapse)
  note frame = Button1_code_frame [OF code [unfolded r] ]
  show ?thesis
  proof (cases "enqueue_sends es (chan s)")
    case None
    with assms True code r
    have s': "s' = s\<lparr>mem := m', button1_curr_state := lvl, button1_pending := from_send es\<rparr>"
      and evs: "evs = before_send es"
      by simp_all
    show ?thesis
      using frame True by (simp add: s' evs sends_only_def sent_ptrs_before_send)
  next
    case (Some q)
    with assms True code r
    have s': "s' = s\<lparr>mem := m', chan := q, button1_curr_state := lvl,
                      button1_prev_state := p'\<rparr>"
      and evs: "evs = es"
      by simp_all
    from enqueue_sends_items [OF Some] show ?thesis
      using frame True by (simp add: s' evs sends_only_def)
  qed
qed

lemma Button2_step_frame:
  assumes "system_step (Button2_runs lvl) s = Some (s', evs)"
  shows "mem s' string_message = mem s string_message \<and>
         mem s' button1_message = mem s button1_message \<and>
         (button2_pending s \<noteq> [] \<or> lvl = button2_prev_state s \<longrightarrow> mem s' = mem s) \<and>
         (sends_only s \<longrightarrow>
            sends_only s' \<and>
            items (chan s) @ sent_ptrs evs = received_ptrs evs @ items (chan s'))"
proof (cases "button2_pending s = []")
  case False
  with assms obtain q where q: "enqueue_sends (button2_pending s) (chan s) = Some q"
    and s': "s' = s\<lparr>chan := q, button2_prev_state := button2_curr_state s,
                    button2_pending := []\<rparr>"
    and evs: "evs = button2_pending s"
    by (auto split: option.splits)
  from enqueue_sends_items [OF q] show ?thesis
    using False s' evs by (simp add: sends_only_def)
next
  case True
  with assms obtain r where code: "Button2_task_code lvl (button2_prev_state s, mem s) = Some r"
    by (auto split: option.splits)
  obtain p' m' es where r: "r = ((p', m'), es)"
    by (metis prod.collapse)
  note frame = Button2_code_frame [OF code [unfolded r] ]
  show ?thesis
  proof (cases "enqueue_sends es (chan s)")
    case None
    with assms True code r
    have s': "s' = s\<lparr>mem := m', button2_curr_state := lvl, button2_pending := from_send es\<rparr>"
      and evs: "evs = before_send es"
      by simp_all
    show ?thesis
      using frame True by (simp add: s' evs sends_only_def sent_ptrs_before_send)
  next
    case (Some q)
    with assms True code r
    have s': "s' = s\<lparr>mem := m', chan := q, button2_curr_state := lvl,
                      button2_prev_state := p'\<rparr>"
      and evs: "evs = es"
      by simp_all
    from enqueue_sends_items [OF Some] show ?thesis
      using frame True by (simp add: s' evs sends_only_def)
  qed
qed

lemma String_step_frame:
  assumes "system_step String_runs s = Some (s', evs)"
  shows "mem s' = mem s \<and>
         (sends_only s \<longrightarrow>
            sends_only s' \<and>
            items (chan s) @ sent_ptrs evs = received_ptrs evs @ items (chan s'))"
  using assms
  by (auto simp: String_task_code_def send_def sends_only_def split: option.splits if_splits)

lemma Consumer_step_frame:
  assumes "system_step Consumer_runs s = Some (s', evs)"
  shows "mem s' = mem s \<and>
         (sends_only s \<longrightarrow>
            sends_only s' \<and>
            items (chan s) @ sent_ptrs evs = received_ptrs evs @ items (chan s')) \<and>
         (\<exists>p. items (chan s) = p # items (chan s') \<and> received_ptrs evs = [p] \<and>
              uart_output evs = [message_text (mem s p)])"
  using assms
  by (auto simp: Consumer_task_code_def receive_def message_text_def sends_only_def
      split: option.splits list.splits)

lemma system_step_frame:
  assumes "system_step t s = Some (s', evs)"
  shows "mem s' string_message = mem s string_message \<and>
         ((\<forall>lvl. t \<noteq> Button1_runs lvl) \<longrightarrow> mem s' button1_message = mem s button1_message) \<and>
         ((\<forall>lvl. t \<noteq> Button2_runs lvl) \<longrightarrow> mem s' button2_message = mem s button2_message) \<and>
         (sends_only s \<longrightarrow>
            sends_only s' \<and>
            items (chan s) @ sent_ptrs evs = received_ptrs evs @ items (chan s'))"
proof (cases t)
  case (Button1_runs lvl)
  then show ?thesis
    using assms Button1_step_frame [of lvl s s' evs] by simp
next
  case (Button2_runs lvl)
  then show ?thesis
    using assms Button2_step_frame [of lvl s s' evs] by simp
next
  case String_runs
  then show ?thesis
    using assms String_step_frame [of s s' evs] by simp
next
  case Consumer_runs
  then show ?thesis
    using assms Consumer_step_frame [of s s' evs] by simp
qed

lemma system_run_frame:
  "task_run system_step ts s = Some (s', evs) \<Longrightarrow>
   mem s' string_message = mem s string_message \<and>
   ((\<forall>lvl. Button1_runs lvl \<notin> set ts) \<longrightarrow> mem s' button1_message = mem s button1_message) \<and>
   ((\<forall>lvl. Button2_runs lvl \<notin> set ts) \<longrightarrow> mem s' button2_message = mem s button2_message) \<and>
   (sends_only s \<longrightarrow>
      sends_only s' \<and> items (chan s) @ sent_ptrs evs = received_ptrs evs @ items (chan s'))"
proof (induction ts arbitrary: s evs)
  case Nil
  then show ?case by simp
next
  case (Cons t ts)
  from Cons.prems obtain s1 e1 e2 where step: "system_step t s = Some (s1, e1)"
    and run: "task_run system_step ts s1 = Some (s', e2)" and evs: "evs = e1 @ e2"
    by (auto split: option.splits)
  note f1 = system_step_frame [OF step]
  note f2 = Cons.IH [OF run]
  have fifo: "sends_only s' \<and>
      items (chan s) @ sent_ptrs evs = received_ptrs evs @ items (chan s')"
    if ok: "sends_only s"
  proof -
    from f1 ok have ok1: "sends_only s1"
      and q1: "items (chan s) @ sent_ptrs e1 = received_ptrs e1 @ items (chan s1)"
      by simp_all
    from f2 ok1 have ok2: "sends_only s'"
      and q2: "items (chan s1) @ sent_ptrs e2 = received_ptrs e2 @ items (chan s')"
      by simp_all
    have "items (chan s) @ sent_ptrs evs = (items (chan s) @ sent_ptrs e1) @ sent_ptrs e2"
      by (simp add: evs sent_ptrs_append)
    also have "\<dots> = received_ptrs e1 @ (items (chan s1) @ sent_ptrs e2)"
      using q1 by simp
    also have "\<dots> = received_ptrs evs @ items (chan s')"
      using q2 by (simp add: evs received_ptrs_append)
    finally show ?thesis
      using ok2 by simp
  qed
  have str: "mem s' string_message = mem s string_message"
    using f1 f2 by simp
  have b1: "(\<forall>lvl. Button1_runs lvl \<notin> set (t # ts)) \<longrightarrow>
              mem s' button1_message = mem s button1_message"
    using f1 f2 by auto
  have b2: "(\<forall>lvl. Button2_runs lvl \<notin> set (t # ts)) \<longrightarrow>
              mem s' button2_message = mem s button2_message"
    using f1 f2 by auto
  show ?case
    using fifo str b1 b2 by blast
qed

lemma example_start_eq:
  "system_init blank_memory PIN_IS_LOW PIN_IS_LOW = Some example_start"
proof -
  have "''Periodic Message\<newline>'' \<in> set producer_literals"
    by (simp add: producer_literals_def)
  moreover have "length (message (blank_memory string_message)) = MESSAGE_LEN + 1"
    by (simp add: blank_memory_def)
  ultimately obtain m' where
    "write_message ''Periodic Message\<newline>'' (blank_memory string_message) = Some m'"
    using write_message_literal by blast
  then obtain m where "String_task_init blank_memory = Some m"
    by (simp add: String_task_init_def)
  then show ?thesis
    by (simp add: example_start_def system_init_def)
qed

lemma Button1_step_writes:
  assumes "well_sized (mem s)" and "button1_pending s = []" and "lvl \<noteq> button1_prev_state s"
  shows "\<exists>s1 e1. system_step (Button1_runs lvl) s = Some (s1, e1) \<and>
           message_text (mem s1 button1_message) =
             (if lvl = PIN_IS_HIGH then ''Button1 Rising Edge\<newline>''
              else ''Button1 Falling Edge\<newline>'')"
proof -
  obtain m' where code: "Button1_task_code lvl (button1_prev_state s, mem s) =
      Some ((lvl, (mem s)(button1_message := m')),
            [GPIO_read PORT_0 PIN0 lvl,
             xQueueSend message_queue button1_message portMAX_DELAY, vTaskDelay 1])"
    and txt1: "message_text m' =
           (if lvl = PIN_IS_HIGH then ''Button1 Rising Edge\<newline>''
            else ''Button1 Falling Edge\<newline>'')"
    using Button1_edge [OF assms(1,3)] by blast
  show ?thesis
    using assms(2) code txt1 by (cases "send (chan s) button1_message") simp_all
qed

lemma Button2_step_writes:
  assumes "well_sized (mem s)" and "button2_pending s = []" and "lvl \<noteq> button2_prev_state s"
  shows "\<exists>s1 e1. system_step (Button2_runs lvl) s = Some (s1, e1) \<and>
           message_text (mem s1 button2_message) =
             (if lvl = PIN_IS_HIGH then ''Button2 Rising Edge\<newline>''
              else ''Button2 Falling Edge\<newline>'')"
proof -
  obtain m' where code: "Button2_task_code lvl (button2_prev_state s, mem s) =
      Some ((lvl, (mem s)(button2_message := m')),
            [GPIO_read PORT_0 PIN1 lvl,
             xQueueSend message_queue button2_message portMAX_DELAY, vTaskDelay 1])"
    and txt1: "message_text m' =
           (if lvl = PIN_IS_HIGH then ''Button2 Rising Edge\<newline>''
            else ''Button2 Falling Edge\<newline>'')"
    using Button2_edge [OF assms(1,3)] by blast
  show ?thesis
    using assms(2) code txt1 by (cases "send (chan s) button2_message") simp_all
qed

text \<open>
  Claim C4, as the code has it. The queue holds pointers to the producers' records, one
  record for each producer, and not copies. In every run of the queue program the pointers
  sent (after those already queued) are the pointers received followed by those still
  queued, in order: each accepted send is received once, first-in first-out. The record of
  the string task is never modified by any task's loop. The record of a button task is
  modified only by that task, in an iteration that finds the level changed: it is then
  rewritten before the send, whether the send proceeds or blocks on a full queue, and
  whether or not an earlier send of the same record is still queued. It is not modified
  in a run in which that task does not run, by an iteration in which the level has not
  changed, or by the completion of a blocked send. The consumer modifies no record and
  prints the text its pointer designates in memory at the time of the receive.
\<close>

theorem C4_records_and_pointers:
  "(task_run system_step ts s = Some (s', evs) \<longrightarrow>
      mem s' string_message = mem s string_message \<and>
      ((\<forall>lvl. Button1_runs lvl \<notin> set ts) \<longrightarrow> mem s' button1_message = mem s button1_message) \<and>
      ((\<forall>lvl. Button2_runs lvl \<notin> set ts) \<longrightarrow> mem s' button2_message = mem s button2_message) \<and>
      (sends_only s \<longrightarrow>
         sends_only s' \<and>
         items (chan s) @ sent_ptrs evs = received_ptrs evs @ items (chan s'))) \<and>
   (system_step (Button1_runs lvl) s = Some (s', evs) \<and>
      (button1_pending s \<noteq> [] \<or> lvl = button1_prev_state s) \<longrightarrow> mem s' = mem s) \<and>
   (system_step (Button2_runs lvl) s = Some (s', evs) \<and>
      (button2_pending s \<noteq> [] \<or> lvl = button2_prev_state s) \<longrightarrow> mem s' = mem s) \<and>
   (system_step String_runs s = Some (s', evs) \<longrightarrow> mem s' = mem s) \<and>
   (system_step Consumer_runs s = Some (s', evs) \<longrightarrow>
      mem s' = mem s \<and>
      (\<exists>p. items (chan s) = p # items (chan s') \<and> received_ptrs evs = [p] \<and>
           uart_output evs = [message_text (mem s p)])) \<and>
   (well_sized (mem s) \<and> button1_pending s = [] \<and> lvl \<noteq> button1_prev_state s \<longrightarrow>
      (\<exists>s1 e1. system_step (Button1_runs lvl) s = Some (s1, e1) \<and>
         message_text (mem s1 button1_message) =
           (if lvl = PIN_IS_HIGH then ''Button1 Rising Edge\<newline>''
            else ''Button1 Falling Edge\<newline>''))) \<and>
   (well_sized (mem s) \<and> button2_pending s = [] \<and> lvl \<noteq> button2_prev_state s \<longrightarrow>
      (\<exists>s1 e1. system_step (Button2_runs lvl) s = Some (s1, e1) \<and>
         message_text (mem s1 button2_message) =
           (if lvl = PIN_IS_HIGH then ''Button2 Rising Edge\<newline>''
            else ''Button2 Falling Edge\<newline>''))) \<and>
   (Button1_task_code lvl (prev, m) = Some ((prev', m'), es) \<longrightarrow>
      m' button2_message = m button2_message \<and> m' string_message = m string_message \<and>
      (lvl = prev \<longrightarrow> m' = m)) \<and>
   (Button2_task_code lvl (prev, m) = Some ((prev', m'), es) \<longrightarrow>
      m' button1_message = m button1_message \<and> m' string_message = m string_message \<and>
      (lvl = prev \<longrightarrow> m' = m)) \<and>
   fst (String_task_code m) = m \<and>
   fst (Consumer_task_code p m) = m \<and>
   uart_output (snd (Consumer_task_code p m)) = [message_text (m p)]"
proof (intro conjI impI)
  assume "task_run system_step ts s = Some (s', evs)"
  note run = system_run_frame [OF this]
  from run show "mem s' string_message = mem s string_message"
    by simp
  {
    assume "\<forall>lvl. Button1_runs lvl \<notin> set ts"
    with run show "mem s' button1_message = mem s button1_message"
      by simp
  }
  {
    assume "\<forall>lvl. Button2_runs lvl \<notin> set ts"
    with run show "mem s' button2_message = mem s button2_message"
      by simp
  }
  {
    assume "sends_only s"
    with run show "sends_only s'"
      and "items (chan s) @ sent_ptrs evs = received_ptrs evs @ items (chan s')"
      by simp_all
  }
next
  assume "system_step (Button1_runs lvl) s = Some (s', evs) \<and>
      (button1_pending s \<noteq> [] \<or> lvl = button1_prev_state s)"
  then show "mem s' = mem s"
    using Button1_step_frame [of lvl s s' evs] by blast
next
  assume "system_step (Button2_runs lvl) s = Some (s', evs) \<and>
      (button2_pending s \<noteq> [] \<or> lvl = button2_prev_state s)"
  then show "mem s' = mem s"
    using Button2_step_frame [of lvl s s' evs] by blast
next
  assume "system_step String_runs s = Some (s', evs)"
  then show "mem s' = mem s"
    using String_step_frame by blast
next
  assume c: "system_step Consumer_runs s = Some (s', evs)"
  from Consumer_step_frame [OF c] show "mem s' = mem s"
    by simp
  from Consumer_step_frame [OF c]
  show "\<exists>p. items (chan s) = p # items (chan s') \<and> received_ptrs evs = [p] \<and>
           uart_output evs = [message_text (mem s p)]"
    by simp
next
  assume "well_sized (mem s) \<and> button1_pending s = [] \<and> lvl \<noteq> button1_prev_state s"
  then show "\<exists>s1 e1. system_step (Button1_runs lvl) s = Some (s1, e1) \<and>
         message_text (mem s1 button1_message) =
           (if lvl = PIN_IS_HIGH then ''Button1 Rising Edge\<newline>''
            else ''Button1 Falling Edge\<newline>'')"
    using Button1_step_writes [of s lvl] by blast
next
  assume "well_sized (mem s) \<and> button2_pending s = [] \<and> lvl \<noteq> button2_prev_state s"
  then show "\<exists>s1 e1. system_step (Button2_runs lvl) s = Some (s1, e1) \<and>
         message_text (mem s1 button2_message) =
           (if lvl = PIN_IS_HIGH then ''Button2 Rising Edge\<newline>''
            else ''Button2 Falling Edge\<newline>'')"
    using Button2_step_writes [of s lvl] by blast
next
  assume b: "Button1_task_code lvl (prev, m) = Some ((prev', m'), es)"
  from Button1_code_frame [OF b] show "m' button2_message = m button2_message"
    and "m' string_message = m string_message"
    by simp_all
  {
    assume "lvl = prev"
    with Button1_code_frame [OF b] show "m' = m"
      by simp
  }
next
  assume b: "Button2_task_code lvl (prev, m) = Some ((prev', m'), es)"
  from Button2_code_frame [OF b] show "m' button1_message = m button1_message"
    and "m' string_message = m string_message"
    by simp_all
  {
    assume "lvl = prev"
    with Button2_code_frame [OF b] show "m' = m"
      by simp
  }
next
  show "fst (String_task_code m) = m"
    by (simp add: String_task_code_def)
  show "fst (Consumer_task_code p m) = m"
    by (simp add: Consumer_task_code_def)
  show "uart_output (snd (Consumer_task_code p m)) = [message_text (m p)]"
    by (simp add: Consumer_task_code_def message_text_def)
qed

text \<open>
  A run in which the first button task blocks: ten iterations of the string task fill the
  queue, the button task then sees a rising edge, writes its record and stops in its send;
  after the consumer has taken one pointer the send completes.
\<close>

theorem C4_records_and_pointers_witness:
  "sends_only example_start \<and>
   task_run system_step
     (replicate 10 String_runs @ [Button1_runs PIN_IS_HIGH, Consumer_runs, Button1_runs PIN_IS_LOW])
     example_start \<noteq> None \<and>
   message_text (mem (fst (the (task_run system_step
       (replicate 10 String_runs @ [Button1_runs PIN_IS_HIGH]) example_start))) button1_message) =
     ''Button1 Rising Edge\<newline>'' \<and>
   button1_pending (fst (the (task_run system_step
       (replicate 10 String_runs @ [Button1_runs PIN_IS_HIGH]) example_start))) =
     [xQueueSend message_queue button1_message portMAX_DELAY, vTaskDelay 1] \<and>
   items (chan (fst (the (task_run system_step
       (replicate 10 String_runs @ [Button1_runs PIN_IS_HIGH]) example_start)))) =
     replicate 10 string_message \<and>
   sent_ptrs (snd (the (task_run system_step
       (replicate 10 String_runs @ [Button1_runs PIN_IS_HIGH, Consumer_runs, Button1_runs PIN_IS_LOW])
       example_start))) =
     replicate 10 string_message @ [button1_message] \<and>
   received_ptrs (snd (the (task_run system_step
       (replicate 10 String_runs @ [Button1_runs PIN_IS_HIGH, Consumer_runs, Button1_runs PIN_IS_LOW])
       example_start))) =
     [string_message] \<and>
   items (chan (fst (the (task_run system_step
       (replicate 10 String_runs @ [Button1_runs PIN_IS_HIGH, Consumer_runs, Button1_runs PIN_IS_LOW])
       example_start)))) =
     replicate 9 string_message @ [button1_message] \<and>
   mem (fst (the (task_run system_step
       (replicate 10 String_runs @ [Button1_runs PIN_IS_HIGH, Consumer_runs, Button1_runs PIN_IS_LOW])
       example_start))) string_message = mem example_start string_message \<and>
   mem (fst (the (task_run system_step
       (replicate 10 String_runs @ [Button1_runs PIN_IS_HIGH, Consumer_runs, Button1_runs PIN_IS_LOW])
       example_start))) button2_message = mem example_start button2_message"
proof -
  let ?ts = "replicate 10 String_runs
               @ [Button1_runs PIN_IS_HIGH, Consumer_runs, Button1_runs PIN_IS_LOW]"
  let ?r = "task_run system_step ?ts example_start"
  let ?b = "task_run system_step (replicate 10 String_runs @ [Button1_runs PIN_IS_HIGH])
              example_start"
  have ok: "sends_only example_start"
    by code_simp
  have some: "?r \<noteq> None"
    by code_simp
  then have run: "?r = Some (fst (the ?r), snd (the ?r))"
    by auto
  have written: "message_text (mem (fst (the ?b)) button1_message) = ''Button1 Rising Edge\<newline>''"
    by code_simp
  have pending: "button1_pending (fst (the ?b)) =
      [xQueueSend message_queue button1_message portMAX_DELAY, vTaskDelay 1]"
    by code_simp
  have full: "items (chan (fst (the ?b))) = replicate 10 string_message"
    by code_simp
  have sent: "sent_ptrs (snd (the ?r)) = replicate 10 string_message @ [button1_message]"
    by code_simp
  have rcvd: "received_ptrs (snd (the ?r)) = [string_message]"
    by code_simp
  have nob2: "\<forall>lvl. Button2_runs lvl \<notin> set ?ts"
    by simp
  from C4_records_and_pointers [of ?ts example_start "fst (the ?r)" "snd (the ?r)",
      THEN conjunct1] run
  have str: "mem (fst (the ?r)) string_message = mem example_start string_message"
    and b2: "(\<forall>lvl. Button2_runs lvl \<notin> set ?ts) \<longrightarrow>
               mem (fst (the ?r)) button2_message = mem example_start button2_message"
    and fifo: "sends_only example_start \<longrightarrow>
         sends_only (fst (the ?r)) \<and>
         items (chan example_start) @ sent_ptrs (snd (the ?r)) =
           received_ptrs (snd (the ?r)) @ items (chan (fst (the ?r)))"
    by blast+
  have empty: "items (chan example_start) = []"
    by code_simp
  from fifo ok sent rcvd empty
  have left: "items (chan (fst (the ?r))) = replicate 9 string_message @ [button1_message]"
    by (simp add: numeral_eq_Suc)
  show ?thesis
    using ok some written pending full sent rcvd left str b2 nob2 by (intro conjI) blast+
qed

text \<open>
  The claim as stated fails on the queue program, which queues a pointer to the one
  record each producer owns. The first button task sees a rising edge, writes the Rising
  text and sends its record; before the consumer runs it sees the falling edge and writes
  the Falling text into the same record, which is still queued, and sends it again. The
  consumer then prints the Falling text twice: the record of the first send was changed
  between that send and its receipt.
\<close>

theorem C4_counterexample:
  "message_text (mem (fst (the (task_run system_step
       [Button1_runs PIN_IS_HIGH] example_start))) button1_message) =
     ''Button1 Rising Edge\<newline>'' \<and>
   items (chan (fst (the (task_run system_step
       [Button1_runs PIN_IS_HIGH] example_start)))) = [button1_message] \<and>
   message_text (mem (fst (the (task_run system_step
       [Button1_runs PIN_IS_HIGH, Button1_runs PIN_IS_LOW] example_start))) button1_message) =
     ''Button1 Falling Edge\<newline>'' \<and>
   items (chan (fst (the (task_run system_step
       [Button1_runs PIN_IS_HIGH, Button1_runs PIN_IS_LOW] example_start)))) =
     [button1_message, button1_message] \<and>
   uart_output (snd (the (task_run system_step
       [Button1_runs PIN_IS_HIGH, Button1_runs PIN_IS_LOW, Consumer_runs, Consumer_runs]
       example_start))) =
     [''Button1 Falling Edge\<newline>'', ''Button1 Falling Edge\<newline>'']"
  by code_simp

section \<open>The loops of the mutex program\<close>

lemma put_message_ID_indexable:
  "indexable l \<Longrightarrow> put_message_ID l = Some (l\<lparr>task_message := stamped l (message_ID l)\<rparr>)"
proof -
  assume "indexable l"
  then have low: "2 \<le> unat (task_message_len l)"
    and inside: "unat (task_message_len l) - 2 < length (task_message l)"
    by (simp_all add: indexable_def)
  have idx: "int (unat (task_message_len l)) - 2 = int (unat (task_message_len l) - 2)"
    using low by arith
  show ?thesis
    unfolding put_message_ID_def Let_def idx stamped_def
    using inside by (simp del: of_nat_unat)
qed

lemma stamped_stamped:
  "stamped (l\<lparr>task_message := stamped l c\<rparr>) k = stamped l k"
  by (simp add: stamped_def)

lemma for_trace_cong:
  "(\<And>k. stamped l' k = stamped l k) \<Longrightarrow> task_message_len l' = task_message_len l \<Longrightarrow>
   for_trace d l' n = for_trace d l n"
  by (simp add: for_trace_def)

lemma for_trace_step:
  "n < 10 \<Longrightarrow>
   for_trace d l n =
     [vSerialPutString (stamped l (of_nat n)) (task_message_len l), vTaskDelay d]
       @ for_trace d l (Suc n)"
  by (simp add: for_trace_def upt_conv_Cons)

lemma for_trace_done: "for_trace d l 10 = []"
  by (simp add: for_trace_def)

lemma message_ID_next:
  fixes i :: "8 word"
  assumes "i < 10"
  shows "unat (i + 1) = Suc (unat i)" and "unat i < 10"
proof -
  from assms show "unat i < 10"
    by (simp add: word_less_nat_alt)
  then show "unat (i + 1) = Suc (unat i)"
    by (simp add: unat_word_ariths)
qed

lemma message_ID_done:
  fixes i :: "8 word"
  assumes "\<not> i < 10" and "unat i \<le> 10"
  shows "unat i = 10"
  using assms by (simp add: word_less_nat_alt)

lemma task1_for_trace:
  "indexable l \<Longrightarrow> unat (message_ID l) \<le> 10 \<Longrightarrow>
   \<exists>l'. task1_for l = Some (l', for_trace 100 l (unat (message_ID l))) \<and>
        task_message_len l' = task_message_len l \<and>
        length (task_message l') = length (task_message l) \<and>
        (\<forall>k. stamped l' k = stamped l k)"
proof (induction l rule: task1_for.induct)
  case (1 l)
  show ?case
  proof (cases "message_ID l < 10")
    case False
    with "1.prems" have "unat (message_ID l) = 10"
      by (simp add: message_ID_done)
    with False show ?thesis
      by (simp add: task1_for.simps [of l] for_trace_done)
  next
    case True
    let ?l1 = "l\<lparr>task_message := stamped l (message_ID l)\<rparr>"
    let ?l2 = "?l1\<lparr>message_ID := message_ID l + 1\<rparr>"
    have put: "put_message_ID l = Some ?l1"
      using "1.prems"(1) by (rule put_message_ID_indexable)
    have next_id: "unat (message_ID l + 1) = Suc (unat (message_ID l))"
      and small: "unat (message_ID l) < 10"
      using True by (rule message_ID_next)+
    have idx: "indexable ?l2"
      using "1.prems"(1) by (simp add: indexable_def stamped_def)
    have bound: "unat (message_ID ?l2) \<le> 10"
      using next_id small by simp
    obtain l' where run: "task1_for ?l2 = Some (l', for_trace 100 ?l2 (unat (message_ID ?l2)))"
      and len: "task_message_len l' = task_message_len ?l2"
      and size: "length (task_message l') = length (task_message ?l2)"
      and stamp: "\<forall>k. stamped l' k = stamped ?l2 k"
      using "1.IH" [OF True put idx bound] by blast
    have same: "for_trace 100 ?l2 n = for_trace 100 l n" for n
      by (rule for_trace_cong) (simp_all add: stamped_def)
    have "task1_for l =
        Some (l', [vSerialPutString (stamped l (message_ID l)) (task_message_len l), vTaskDelay 100]
                    @ for_trace 100 l (Suc (unat (message_ID l))))"
      using True put run same next_id by (simp add: task1_for.simps [of l])
    then have "task1_for l = Some (l', for_trace 100 l (unat (message_ID l)))"
      using for_trace_step [OF small, of 100 l] by simp
    moreover have "task_message_len l' = task_message_len l"
      using len by simp
    moreover have "length (task_message l') = length (task_message l)"
      using size by (simp add: stamped_def)
    moreover have "\<forall>k. stamped l' k = stamped l k"
      using stamp by (simp add: stamped_def)
    ultimately show ?thesis
      by blast
  qed
qed

lemma task2_for_trace:
  "indexable l \<Longrightarrow> unat (message_ID l) \<le> 10 \<Longrightarrow>
   \<exists>l'. task2_for l = Some (l', for_trace 500 l (unat (message_ID l))) \<and>
        task_message_len l' = task_message_len l \<and>
        length (task_message l') = length (task_message l) \<and>
        (\<forall>k. stamped l' k = stamped l k)"
proof (induction l rule: task2_for.induct)
  case (1 l)
  show ?case
  proof (cases "message_ID l < 10")
    case False
    with "1.prems" have "unat (message_ID l) = 10"
      by (simp add: message_ID_done)
    with False show ?thesis
      by (simp add: task2_for.simps [of l] for_trace_done)
  next
    case True
    let ?l1 = "l\<lparr>task_message := stamped l (message_ID l)\<rparr>"
    let ?l2 = "?l1\<lparr>heavy_load_index := heavy_load 0, message_ID := message_ID l + 1\<rparr>"
    have put: "put_message_ID l = Some ?l1"
      using "1.prems"(1) by (rule put_message_ID_indexable)
    have next_id: "unat (message_ID l + 1) = Suc (unat (message_ID l))"
      and small: "unat (message_ID l) < 10"
      using True by (rule message_ID_next)+
    have idx: "indexable ?l2"
      using "1.prems"(1) by (simp add: indexable_def stamped_def)
    have bound: "unat (message_ID ?l2) \<le> 10"
      using next_id small by simp
    obtain l' where run: "task2_for ?l2 = Some (l', for_trace 500 ?l2 (unat (message_ID ?l2)))"
      and len: "task_message_len l' = task_message_len ?l2"
      and size: "length (task_message l') = length (task_message ?l2)"
      and stamp: "\<forall>k. stamped l' k = stamped ?l2 k"
      using "1.IH" [OF True put idx bound] by blast
    have same: "for_trace 500 ?l2 n = for_trace 500 l n" for n
      by (rule for_trace_cong) (simp_all add: stamped_def)
    have "task2_for l =
        Some (l', [vSerialPutString (stamped l (message_ID l)) (task_message_len l), vTaskDelay 500]
                    @ for_trace 500 l (Suc (unat (message_ID l))))"
      using True put run same next_id by (simp add: task2_for.simps [of l])
    then have "task2_for l = Some (l', for_trace 500 l (unat (message_ID l)))"
      using for_trace_step [OF small, of 500 l] by simp
    moreover have "task_message_len l' = task_message_len l"
      using len by simp
    moreover have "length (task_message l') = length (task_message l)"
      using size by (simp add: stamped_def)
    moreover have "\<forall>k. stamped l' k = stamped l k"
      using stamp by (simp add: stamped_def)
    ultimately show ?thesis
      by blast
  qed
qed

lemma same_message_refl: "same_message l l"
  by (simp add: same_message_def)

lemma same_message_trans: "same_message l'' l' \<Longrightarrow> same_message l' l \<Longrightarrow> same_message l'' l"
  by (simp add: same_message_def)

lemma same_message_indexable: "same_message l' l \<Longrightarrow> indexable l \<Longrightarrow> indexable l'"
  by (simp add: same_message_def indexable_def)

lemma same_message_trace: "same_message l' l \<Longrightarrow> iteration_trace d taken l' = iteration_trace d taken l"
proof -
  assume "same_message l' l"
  then have "for_trace d l' 0 = for_trace d l 0"
    by (intro for_trace_cong) (simp_all add: same_message_def)
  then show ?thesis
    by (simp add: iteration_trace_def)
qed

lemma for_trace_reset: "for_trace d (l\<lparr>message_ID := i\<rparr>) n = for_trace d l n"
  by (rule for_trace_cong) (simp_all add: stamped_def)

lemma task1_code_trace:
  assumes "indexable l"
  shows "\<exists>l'. task1_code taken l = Some (l', iteration_trace 100 taken l) \<and> same_message l' l"
proof (cases taken)
  case False
  then show ?thesis
    by (simp add: task1_code_def iteration_trace_def same_message_refl)
next
  case True
  let ?l0 = "l\<lparr>message_ID := 0\<rparr>"
  have idx: "indexable ?l0"
    using assms by (simp add: indexable_def)
  have bound: "unat (message_ID ?l0) \<le> 10"
    by simp
  from task1_for_trace [OF idx bound] obtain l' where
    run: "task1_for ?l0 = Some (l', for_trace 100 ?l0 (unat (message_ID ?l0)))"
    and len: "task_message_len l' = task_message_len ?l0"
    and size: "length (task_message l') = length (task_message ?l0)"
    and stamp: "\<forall>k. stamped l' k = stamped ?l0 k"
    by blast
  have "task1_code taken l = Some (l', iteration_trace 100 taken l)"
    using True run by (simp add: task1_code_def iteration_trace_def for_trace_reset)
  moreover have "stamped ?l0 k = stamped l k" for k
    by (simp add: stamped_def)
  then have "same_message l' l"
    using len size stamp by (simp add: same_message_def)
  ultimately show ?thesis
    by blast
qed

lemma task2_code_trace:
  assumes "indexable l"
  shows "\<exists>l'. task2_code taken l = Some (l', iteration_trace 500 taken l) \<and> same_message l' l"
proof (cases taken)
  case False
  then show ?thesis
    by (simp add: task2_code_def iteration_trace_def same_message_refl)
next
  case True
  let ?l0 = "l\<lparr>message_ID := 0\<rparr>"
  have idx: "indexable ?l0"
    using assms by (simp add: indexable_def)
  have bound: "unat (message_ID ?l0) \<le> 10"
    by simp
  from task2_for_trace [OF idx bound] obtain l' where
    run: "task2_for ?l0 = Some (l', for_trace 500 ?l0 (unat (message_ID ?l0)))"
    and len: "task_message_len l' = task_message_len ?l0"
    and size: "length (task_message l') = length (task_message ?l0)"
    and stamp: "\<forall>k. stamped l' k = stamped ?l0 k"
    by blast
  have "task2_code taken l = Some (l', iteration_trace 500 taken l)"
    using True run by (simp add: task2_code_def iteration_trace_def for_trace_reset)
  moreover have "stamped ?l0 k = stamped l k" for k
    by (simp add: stamped_def)
  then have "same_message l' l"
    using len size stamp by (simp add: same_message_def)
  ultimately show ?thesis
    by blast
qed

lemma task_run_trace:
  assumes step: "\<And>taken l. indexable l \<Longrightarrow>
                   \<exists>l'. body taken l = Some (l', iteration_trace d taken l) \<and> same_message l' l"
  shows "indexable l \<Longrightarrow>
         \<exists>l'. task_run body takes l = Some (l', concat (map (\<lambda>t. iteration_trace d t l) takes)) \<and>
              same_message l' l"
proof (induction takes arbitrary: l)
  case Nil
  then show ?case
    by (simp add: same_message_refl)
next
  case (Cons t ts)
  obtain l1 where s1: "body t l = Some (l1, iteration_trace d t l)" and m1: "same_message l1 l"
    using step [OF Cons.prems] by blast
  have "indexable l1"
    using m1 Cons.prems by (rule same_message_indexable)
  then obtain l' where
    r: "task_run body ts l1 = Some (l', concat (map (\<lambda>t. iteration_trace d t l1) ts))"
    and m2: "same_message l' l1"
    using Cons.IH by blast
  have "(\<lambda>t. iteration_trace d t l1) = (\<lambda>t. iteration_trace d t l)"
    using m1 by (simp add: same_message_trace)
  then have "task_run body (t # ts) l =
      Some (l', concat (map (\<lambda>t. iteration_trace d t l) (t # ts)))"
    using s1 r by simp
  moreover have "same_message l' l"
    using m2 m1 by (rule same_message_trans)
  ultimately show ?case
    by blast
qed

section \<open>What the traces of the mutex program contain\<close>

lemma holds_mutex_append: "holds_mutex (xs @ ys) h = holds_mutex ys (holds_mutex xs h)"
  by (induction xs h rule: holds_mutex.induct) simp_all

lemma holds_mutex_for_trace: "holds_mutex (for_trace d l n) h = h"
proof -
  have "holds_mutex (concat (map (\<lambda>k. [vSerialPutString (f k) c, vTaskDelay d]) ks)) h = h"
    for f :: "nat \<Rightarrow> string" and c ks
    by (induction ks) simp_all
  then show ?thesis
    by (simp add: for_trace_def)
qed

lemma uart_output_for_trace:
  "uart_output (for_trace d l n) =
     map (\<lambda>k. take (unat (task_message_len l)) (stamped l (of_nat k))) [n..<10]"
proof -
  have "uart_output (concat (map (\<lambda>k. [vSerialPutString (f k) c, vTaskDelay d]) ks)) =
          map (\<lambda>k. take (unat c) (f k)) ks"
    for f :: "nat \<Rightarrow> string" and c ks
    by (induction ks) simp_all
  then show ?thesis
    by (simp add: for_trace_def)
qed

lemma waits_forever_for_trace: "e \<in> set (for_trace d l n) \<Longrightarrow> waits_forever e"
  by (auto simp: for_trace_def waits_forever_def)

lemma waits_forever_iteration: "e \<in> set (iteration_trace d taken l) \<Longrightarrow> waits_forever e"
  using waits_forever_for_trace [of e d l 0]
  by (auto simp: iteration_trace_def waits_forever_def split: if_splits)

lemma holds_mutex_iteration: "holds_mutex (iteration_trace d taken l) False = False"
  by (simp add: iteration_trace_def holds_mutex_append holds_mutex_for_trace)

lemma holds_mutex_iterations:
  "holds_mutex (concat (map (\<lambda>t. iteration_trace d t l) takes)) False = False"
  by (induction takes) (simp_all add: holds_mutex_append holds_mutex_iteration)

lemma digit_of_INT_TO_CHAR: "k < 10 \<Longrightarrow> INT_TO_CHAR (of_nat k) = ''0123456789'' ! k"
proof -
  have "\<forall>k \<in> set [0..<10]. INT_TO_CHAR (of_nat k) = ''0123456789'' ! k"
    by code_simp
  then show "k < 10 \<Longrightarrow> INT_TO_CHAR (of_nat k) = ''0123456789'' ! k"
    by simp
qed

lemma task_init_literal:
  assumes "NUL \<notin> set lit" and "length lit < 256"
  shows "task_init lit h =
           Some \<lparr>task_message = lit @ [NUL], task_message_len = of_nat (length lit),
                 message_ID = 0, heavy_load_index = h\<rparr>"
  using assms by (simp add: task_init_def strlen_literal)

lemma task1_init_eq:
  "task1_init =
     Some \<lparr>task_message = ''Task 1 - Message x\<newline>'' @ [NUL], task_message_len = 19,
           message_ID = 0, heavy_load_index = 0\<rparr>"
  unfolding task1_init_def by (subst task_init_literal) (simp_all add: NUL_def)

lemma task2_init_eq:
  "task2_init h =
     Some \<lparr>task_message = ''Task 2 - Message x\<newline>'' @ [NUL], task_message_len = 19,
           message_ID = 0, heavy_load_index = h\<rparr>"
  unfolding task2_init_def by (subst task_init_literal) (simp_all add: NUL_def)

lemma numbered_uart:
  assumes "task_message l = prefix @ c # ''\<newline>'' @ [NUL]" and "length prefix = 17"
    and "task_message_len l = 19"
  shows "map (\<lambda>k. take (unat (task_message_len l)) (stamped l (of_nat k))) [0..<10] =
           numbered prefix"
proof -
  have "take (unat (task_message_len l)) (stamped l (of_nat k)) =
          prefix @ [''0123456789'' ! k] @ ''\<newline>''" if "k < 10" for k
  proof -
    have "stamped l (of_nat k) = prefix @ INT_TO_CHAR (of_nat k) # ''\<newline>'' @ [NUL]"
      using assms by (simp add: stamped_def list_update_append)
    then show ?thesis
      using assms that by (simp add: digit_of_INT_TO_CHAR)
  qed
  then show ?thesis
    by (simp add: numbered_def)
qed

lemma uart_output_iteration:
  assumes "task_message l = prefix @ c # ''\<newline>'' @ [NUL]" and "length prefix = 17"
    and "task_message_len l = 19"
  shows "uart_output (iteration_trace d taken l) = (if taken then numbered prefix else [])"
  using numbered_uart [OF assms]
  by (simp add: iteration_trace_def uart_output_append uart_output_for_trace)

lemma uart_output_iterations:
  assumes "task_message l = prefix @ c # ''\<newline>'' @ [NUL]" and "length prefix = 17"
    and "task_message_len l = 19"
  shows "uart_output (concat (map (\<lambda>t. iteration_trace d t l) takes)) =
           concat (replicate (length (filter (\<lambda>t. t) takes)) (numbered prefix))"
  by (induction takes) (simp_all add: uart_output_append uart_output_iteration [OF assms])

lemma nth_concat_replicate:
  "xs \<noteq> [] \<Longrightarrow> k < n * length xs \<Longrightarrow> concat (replicate n xs) ! k = xs ! (k mod length xs)"
proof (induction n arbitrary: k)
  case 0
  then show ?case by simp
next
  case (Suc n)
  show ?case
  proof (cases "k < length xs")
    case True
    then show ?thesis
      by (simp add: nth_append)
  next
    case False
    then have "k - length xs < n * length xs"
      using Suc.prems(2) by simp
    then have "concat (replicate n xs) ! (k - length xs) = xs ! ((k - length xs) mod length xs)"
      using Suc.IH Suc.prems(1) by blast
    moreover have "(k - length xs) mod length xs = k mod length xs"
      using False by (simp add: le_mod_geq)
    ultimately show ?thesis
      using False by (simp add: nth_append)
  qed
qed

lemma numbered_nth: "j < 10 \<Longrightarrow> numbered prefix ! j = prefix @ [''0123456789'' ! j] @ ''\<newline>''"
  by (simp add: numbered_def)

lemma length_numbered: "length (numbered prefix) = 10"
  by (simp add: numbered_def)

section \<open>The mutex is released in the iteration that took it\<close>

lemma task1_init_indexable:
  "indexable \<lparr>task_message = ''Task 1 - Message x\<newline>'' @ [NUL], task_message_len = 19,
              message_ID = 0, heavy_load_index = 0\<rparr>"
  by (simp add: indexable_def)

text \<open>
  Claim C7. An iteration of the loop of either producer task completes, and when its take
  of the mutex succeeded the iteration consists of the take, the ten transmissions with
  their delays, the give and a final delay: the task holds the mutex after the take and
  through the transmissions and has given it back before the iteration ends. When the
  take failed the task never held the mutex. So after every iteration, and after any
  number of iterations, the task does not hold the mutex.
\<close>

theorem C7_mutex_released_each_iteration:
  assumes "indexable l"
  shows "(\<exists>l' evs. task1_code taken l = Some (l', evs) \<and> indexable l' \<and>
              \<not> holds_mutex evs False \<and>
              (taken \<longrightarrow>
                 (\<exists>body. evs = xSemaphoreTake mutex portMAX_DELAY True # body
                                  @ [xSemaphoreGive mutex, vTaskDelay 1] \<and>
                         holds_mutex (xSemaphoreTake mutex portMAX_DELAY True # body) False))) \<and>
         (\<exists>l' evs. task2_code taken l = Some (l', evs) \<and> indexable l' \<and>
              \<not> holds_mutex evs False \<and>
              (taken \<longrightarrow>
                 (\<exists>body. evs = xSemaphoreTake mutex portMAX_DELAY True # body
                                  @ [xSemaphoreGive mutex, vTaskDelay 1] \<and>
                         holds_mutex (xSemaphoreTake mutex portMAX_DELAY True # body) False))) \<and>
         (\<exists>l' evs. task_run task1_code takes l = Some (l', evs) \<and> \<not> holds_mutex evs False) \<and>
         (\<exists>l' evs. task_run task2_code takes l = Some (l', evs) \<and> \<not> holds_mutex evs False)"
proof -
  have shape: "taken \<longrightarrow>
      (\<exists>body. iteration_trace d taken l = xSemaphoreTake mutex portMAX_DELAY True # body
                       @ [xSemaphoreGive mutex, vTaskDelay 1] \<and>
              holds_mutex (xSemaphoreTake mutex portMAX_DELAY True # body) False)" for d
    by (intro impI exI [of _ "for_trace d l 0"])
      (simp add: iteration_trace_def holds_mutex_for_trace)
  obtain l1 where one: "task1_code taken l = Some (l1, iteration_trace 100 taken l)"
    and same1: "same_message l1 l"
    using task1_code_trace [OF assms] by blast
  obtain l2 where two: "task2_code taken l = Some (l2, iteration_trace 500 taken l)"
    and same2: "same_message l2 l"
    using task2_code_trace [OF assms] by blast
  obtain l3 where run1: "task_run task1_code takes l =
      Some (l3, concat (map (\<lambda>t. iteration_trace 100 t l) takes))"
    using task_run_trace [of task1_code 100, OF task1_code_trace assms] by blast
  obtain l4 where run2: "task_run task2_code takes l =
      Some (l4, concat (map (\<lambda>t. iteration_trace 500 t l) takes))"
    using task_run_trace [of task2_code 500, OF task2_code_trace assms] by blast
  have c1: "\<exists>l' evs. task1_code taken l = Some (l', evs) \<and> indexable l' \<and>
              \<not> holds_mutex evs False \<and>
              (taken \<longrightarrow>
                 (\<exists>body. evs = xSemaphoreTake mutex portMAX_DELAY True # body
                                  @ [xSemaphoreGive mutex, vTaskDelay 1] \<and>
                         holds_mutex (xSemaphoreTake mutex portMAX_DELAY True # body) False))"
    using one same_message_indexable [OF same1 assms] holds_mutex_iteration [of 100 taken l]
      shape [of 100]
    by (intro exI [of _ l1] exI [of _ "iteration_trace 100 taken l"]) simp
  have c2: "\<exists>l' evs. task2_code taken l = Some (l', evs) \<and> indexable l' \<and>
              \<not> holds_mutex evs False \<and>
              (taken \<longrightarrow>
                 (\<exists>body. evs = xSemaphoreTake mutex portMAX_DELAY True # body
                                  @ [xSemaphoreGive mutex, vTaskDelay 1] \<and>
                         holds_mutex (xSemaphoreTake mutex portMAX_DELAY True # body) False))"
    using two same_message_indexable [OF same2 assms] holds_mutex_iteration [of 500 taken l]
      shape [of 500]
    by (intro exI [of _ l2] exI [of _ "iteration_trace 500 taken l"]) simp
  have c3: "\<exists>l' evs. task_run task1_code takes l = Some (l', evs) \<and> \<not> holds_mutex evs False"
    using run1 holds_mutex_iterations [of 100 l takes] by simp
  have c4: "\<exists>l' evs. task_run task2_code takes l = Some (l', evs) \<and> \<not> holds_mutex evs False"
    using run2 holds_mutex_iterations [of 500 l takes] by simp
  show ?thesis
    using c1 c2 c3 c4 by (intro conjI)
qed

theorem C7_mutex_released_each_iteration_witness:
  "task1_init =
     Some \<lparr>task_message = ''Task 1 - Message x\<newline>'' @ [NUL], task_message_len = 19,
           message_ID = 0, heavy_load_index = 0\<rparr> \<and>
   indexable \<lparr>task_message = ''Task 1 - Message x\<newline>'' @ [NUL], task_message_len = 19,
              message_ID = 0, heavy_load_index = 0\<rparr> \<and>
   (\<exists>l' evs body.
      task1_code True
        \<lparr>task_message = ''Task 1 - Message x\<newline>'' @ [NUL], task_message_len = 19,
          message_ID = 0, heavy_load_index = 0\<rparr> = Some (l', evs) \<and>
      evs = xSemaphoreTake mutex portMAX_DELAY True # body @ [xSemaphoreGive mutex, vTaskDelay 1] \<and>
      holds_mutex (xSemaphoreTake mutex portMAX_DELAY True # body) False \<and>
      \<not> holds_mutex evs False)"
  using C7_mutex_released_each_iteration [OF task1_init_indexable, of True]
        task1_init_eq task1_init_indexable
  by blast

section \<open>The periodic emitters\<close>

lemma task2_init_indexable:
  "indexable \<lparr>task_message = ''Task 2 - Message x\<newline>'' @ [NUL], task_message_len = 19,
              message_ID = 0, heavy_load_index = h\<rparr>"
  by (simp add: indexable_def)

lemma emitter_run:
  assumes step: "\<And>taken l. indexable l \<Longrightarrow>
                   \<exists>l'. body taken l = Some (l', iteration_trace d taken l) \<and> same_message l' l"
    and idx: "indexable l"
    and msg: "task_message l = prefix @ c # ''\<newline>'' @ [NUL]" "length prefix = 17"
      "task_message_len l = 19"
  shows "\<exists>l' evs. task_run body takes l = Some (l', evs) \<and>
           length (uart_output evs) = 10 * length (filter (\<lambda>t. t) takes) \<and>
           (\<forall>k < length (uart_output evs).
              uart_output evs ! k = prefix @ [''0123456789'' ! (k mod 10)] @ ''\<newline>'')"
proof -
  let ?n = "length (filter (\<lambda>t. t) takes)"
  let ?evs = "concat (map (\<lambda>t. iteration_trace d t l) takes)"
  obtain l' where run: "task_run body takes l = Some (l', ?evs)"
    using task_run_trace [of body d, OF step idx] by blast
  have out: "uart_output ?evs = concat (replicate ?n (numbered prefix))"
    using msg by (rule uart_output_iterations)
  have len: "length (uart_output ?evs) = 10 * ?n"
    by (simp add: out length_concat length_numbered sum_list_replicate)
  have nth: "uart_output ?evs ! k = prefix @ [''0123456789'' ! (k mod 10)] @ ''\<newline>''"
    if "k < length (uart_output ?evs)" for k
  proof -
    have "numbered prefix \<noteq> []"
      using length_numbered [of prefix] by auto
    moreover have "k < ?n * length (numbered prefix)"
      using that len by (simp add: length_numbered)
    ultimately have "concat (replicate ?n (numbered prefix)) ! k =
        numbered prefix ! (k mod length (numbered prefix))"
      by (rule nth_concat_replicate)
    then show ?thesis
      by (simp add: out length_numbered numbered_nth)
  qed
  show ?thesis
    using run len nth by blast
qed

text \<open>
  Claim C5, as the code has it. The two emitters that print on the UART under the mutex
  stamp their message with the counter before each transmission: in every run, whatever
  the takes of the mutex return, the \<open>k\<close>-th message transmitted ends in the digit
  \<open>k mod 10\<close> (before the newline), so the suffixes go 0, 1, ..., 9, 0, 1, ... and the
  message after one with suffix 9 has suffix 0. The emitter whose sink is the queue has
  no counter: it fills its record once with the fixed text and every iteration sends
  that same record.
\<close>

theorem C5_emitter_suffix_cycles:
  "(\<exists>l0 l' evs. task1_init = Some l0 \<and> task_run task1_code takes l0 = Some (l', evs) \<and>
        length (uart_output evs) = 10 * length (filter (\<lambda>t. t) takes) \<and>
        (\<forall>k < length (uart_output evs).
           uart_output evs ! k =
             ''Task 1 - Message '' @ [''0123456789'' ! (k mod 10)] @ ''\<newline>'')) \<and>
   (\<exists>l0 l' evs. task2_init h = Some l0 \<and> task_run task2_code takes l0 = Some (l', evs) \<and>
        length (uart_output evs) = 10 * length (filter (\<lambda>t. t) takes) \<and>
        (\<forall>k < length (uart_output evs).
           uart_output evs ! k =
             ''Task 2 - Message '' @ [''0123456789'' ! (k mod 10)] @ ''\<newline>'')) \<and>
   String_task_code m =
     (m, [xQueueSend message_queue string_message portMAX_DELAY, vTaskDelay 100]) \<and>
   (well_sized m \<longrightarrow>
      (\<exists>m'. String_task_init m = Some m' \<and>
            message_text (m' string_message) = ''Periodic Message\<newline>''))"
proof (intro conjI impI)
  let ?l1 = "\<lparr>task_message = ''Task 1 - Message x\<newline>'' @ [NUL], task_message_len = 19,
              message_ID = 0, heavy_load_index = 0\<rparr>"
  have "\<exists>l' evs. task_run task1_code takes ?l1 = Some (l', evs) \<and>
           length (uart_output evs) = 10 * length (filter (\<lambda>t. t) takes) \<and>
           (\<forall>k < length (uart_output evs).
              uart_output evs ! k =
                ''Task 1 - Message '' @ [''0123456789'' ! (k mod 10)] @ ''\<newline>'')"
    by (rule emitter_run [of task1_code 100 ?l1 "''Task 1 - Message ''" "CHR ''x''",
          OF task1_code_trace task1_init_indexable]) simp_all
  then show "\<exists>l0 l' evs. task1_init = Some l0 \<and> task_run task1_code takes l0 = Some (l', evs) \<and>
        length (uart_output evs) = 10 * length (filter (\<lambda>t. t) takes) \<and>
        (\<forall>k < length (uart_output evs).
           uart_output evs ! k =
             ''Task 1 - Message '' @ [''0123456789'' ! (k mod 10)] @ ''\<newline>'')"
    using task1_init_eq by blast
next
  let ?l2 = "\<lparr>task_message = ''Task 2 - Message x\<newline>'' @ [NUL], task_message_len = 19,
              message_ID = 0, heavy_load_index = h\<rparr>"
  have "\<exists>l' evs. task_run task2_code takes ?l2 = Some (l', evs) \<and>
           length (uart_output evs) = 10 * length (filter (\<lambda>t. t) takes) \<and>
           (\<forall>k < length (uart_output evs).
              uart_output evs ! k =
                ''Task 2 - Message '' @ [''0123456789'' ! (k mod 10)] @ ''\<newline>'')"
    by (rule emitter_run [of task2_code 500 ?l2 "''Task 2 - Message ''" "CHR ''x''",
          OF task2_code_trace task2_init_indexable]) simp_all
  then show "\<exists>l0 l' evs. task2_init h = Some l0 \<and> task_run task2_code takes l0 = Some (l', evs) \<and>
        length (uart_output evs) = 10 * length (filter (\<lambda>t. t) takes) \<and>
        (\<forall>k < length (uart_output evs).
           uart_output evs ! k =
             ''Task 2 - Message '' @ [''0123456789'' ! (k mod 10)] @ ''\<newline>'')"
    using task2_init_eq [of h] by blast
next
  show "String_task_code m =
     (m, [xQueueSend message_queue string_message portMAX_DELAY, vTaskDelay 100])"
    by (simp add: String_task_code_def)
next
  assume "well_sized m"
  then have "length (message (m string_message)) = MESSAGE_LEN + 1"
    by (simp add: well_sized_def)
  moreover have "''Periodic Message\<newline>'' \<in> set producer_literals"
    by (simp add: producer_literals_def)
  ultimately obtain m' where
    "write_message ''Periodic Message\<newline>'' (m string_message) = Some m'"
    and "message_text m' = ''Periodic Message\<newline>''"
    using write_message_literal by blast
  then show "\<exists>m'. String_task_init m = Some m' \<and>
            message_text (m' string_message) = ''Periodic Message\<newline>''"
    by (simp add: String_task_init_def)
qed

theorem C5_emitter_suffix_cycles_witness:
  "well_sized blank_memory \<and>
   (\<exists>l0 l' evs. task1_init = Some l0 \<and> task_run task1_code [True, False, True] l0 = Some (l', evs) \<and>
        length (uart_output evs) = 20 \<and>
        uart_output evs ! 8 = ''Task 1 - Message 8\<newline>'' \<and>
        uart_output evs ! 9 = ''Task 1 - Message 9\<newline>'' \<and>
        uart_output evs ! 10 = ''Task 1 - Message 0\<newline>'' \<and>
        uart_output evs ! 11 = ''Task 1 - Message 1\<newline>'') \<and>
   (\<exists>m'. String_task_init blank_memory = Some m' \<and>
         message_text (m' string_message) = ''Periodic Message\<newline>'')"
proof -
  obtain l0 l' evs where init: "task1_init = Some l0"
    and run: "task_run task1_code [True, False, True] l0 = Some (l', evs)"
    and len: "length (uart_output evs) = 10 * length (filter (\<lambda>t. t) [True, False, True])"
    and nth: "\<forall>k < length (uart_output evs).
           uart_output evs ! k =
             ''Task 1 - Message '' @ [''0123456789'' ! (k mod 10)] @ ''\<newline>''"
    and str: "\<exists>m'. String_task_init blank_memory = Some m' \<and>
         message_text (m' string_message) = ''Periodic Message\<newline>''"
    using C5_emitter_suffix_cycles [of "[True, False, True]" 0 blank_memory] well_sized_blank
    by blast
  from len have len20: "length (uart_output evs) = 20"
    by simp
  have "uart_output evs ! 8 = ''Task 1 - Message 8\<newline>''"
    and "uart_output evs ! 9 = ''Task 1 - Message 9\<newline>''"
    and "uart_output evs ! 10 = ''Task 1 - Message 0\<newline>''"
    and "uart_output evs ! 11 = ''Task 1 - Message 1\<newline>''"
    using nth len20 by simp_all
  then show ?thesis
    using init run len20 str well_sized_blank by blast
qed

text \<open>
  The claim as stated fails for the emitter whose sink is the queue: two successive
  iterations of the string task deliver the same text, and the character at
  \<^verbatim>\<open>message_len - 2\<close>, where the other emitters put their counter, is the letter e.
\<close>

theorem C5_counterexample:
  "uart_output (snd (the (task_run system_step
       [String_runs, String_runs, Consumer_runs, Consumer_runs] example_start))) =
     [''Periodic Message\<newline>'', ''Periodic Message\<newline>''] \<and>
   ''Periodic Message\<newline>'' ! (length ''Periodic Message\<newline>'' - 2) = CHR ''e''"
  by code_simp

section \<open>Blocking calls use the infinite timeout\<close>

lemma task1_for_waits:
  "task1_for l = Some (l', evs) \<Longrightarrow> e \<in> set evs \<Longrightarrow> waits_forever e"
proof (induction l arbitrary: l' evs rule: task1_for.induct)
  case (1 l)
  show ?case
  proof (cases "message_ID l < 10")
    case False
    with "1.prems" show ?thesis
      by (simp add: task1_for.simps [of l])
  next
    case True
    with "1.prems"(1) obtain l1 r where put: "put_message_ID l = Some l1"
      and rec: "task1_for (l1\<lparr>message_ID := message_ID l + 1\<rparr>) = Some r"
      and evs: "evs = [vSerialPutString (task_message l1) (task_message_len l1), vTaskDelay 100]
                        @ snd r"
      by (auto simp: task1_for.simps [of l] split: option.splits)
    have "e \<in> set (snd r) \<Longrightarrow> waits_forever e"
      using "1.IH" [OF True put, of "fst r" "snd r"] rec by simp
    with evs "1.prems"(2) show ?thesis
      by (auto simp: waits_forever_def)
  qed
qed

lemma task2_for_waits:
  "task2_for l = Some (l', evs) \<Longrightarrow> e \<in> set evs \<Longrightarrow> waits_forever e"
proof (induction l arbitrary: l' evs rule: task2_for.induct)
  case (1 l)
  show ?case
  proof (cases "message_ID l < 10")
    case False
    with "1.prems" show ?thesis
      by (simp add: task2_for.simps [of l])
  next
    case True
    with "1.prems"(1) obtain l1 r where put: "put_message_ID l = Some l1"
      and rec: "task2_for (l1\<lparr>heavy_load_index := heavy_load 0,
                               message_ID := message_ID l + 1\<rparr>) = Some r"
      and evs: "evs = [vSerialPutString (task_message l1) (task_message_len l1), vTaskDelay 500]
                        @ snd r"
      by (auto simp: task2_for.simps [of l] split: option.splits)
    have "e \<in> set (snd r) \<Longrightarrow> waits_forever e"
      using "1.IH" [OF True put, of "fst r" "snd r"] rec by simp
    with evs "1.prems"(2) show ?thesis
      by (auto simp: waits_forever_def)
  qed
qed

lemma wait_for_forever: "wait_for portMAX_DELAY n available \<noteq> Timed_out k"
  by (induction available arbitrary: n) simp_all

text \<open>
  Claim C6. Every call on the mutex or on the queue that an iteration of any task makes
  (the takes of the two tasks of the mutex program, the sends of the three producers and
  the receive of the consumer of the queue program) carries the timeout
  \<^verbatim>\<open>portMAX_DELAY\<close>; and a call with that timeout, however long the resource stays
  unavailable, never ends by timing out: it is still blocked or it has obtained the
  resource.
\<close>

theorem C6_blocking_calls_never_time_out:
  "(task1_code taken l = Some (l', evs) \<longrightarrow> (\<forall>e \<in> set evs. waits_forever e)) \<and>
   (task2_code taken l = Some (l', evs) \<longrightarrow> (\<forall>e \<in> set evs. waits_forever e)) \<and>
   (Button1_task_code lvl s = Some (s', evs) \<longrightarrow> (\<forall>e \<in> set evs. waits_forever e)) \<and>
   (Button2_task_code lvl s = Some (s', evs) \<longrightarrow> (\<forall>e \<in> set evs. waits_forever e)) \<and>
   (\<forall>e \<in> set (snd (String_task_code m)). waits_forever e) \<and>
   (\<forall>e \<in> set (snd (Consumer_task_code p m)). waits_forever e) \<and>
   (waits_forever e \<and> blocking_timeout e = Some t \<longrightarrow>
      t = portMAX_DELAY \<and> wait_for t n available \<noteq> Timed_out k)"
proof (intro conjI impI ballI)
  fix e
  assume "task1_code taken l = Some (l', evs)" and "e \<in> set evs"
  then show "waits_forever e"
    using task1_for_waits [of "l\<lparr>message_ID := 0\<rparr>" _ _ e]
    by (auto simp: task1_code_def waits_forever_def split: if_splits option.splits)
next
  fix e
  assume "task2_code taken l = Some (l', evs)" and "e \<in> set evs"
  then show "waits_forever e"
    using task2_for_waits [of "l\<lparr>message_ID := 0\<rparr>" _ _ e]
    by (auto simp: task2_code_def waits_forever_def split: if_splits option.splits)
next
  fix e
  assume "Button1_task_code lvl s = Some (s', evs)" and "e \<in> set evs"
  then show "waits_forever e"
    by (auto simp: Button1_task_code_def Let_def waits_forever_def
        split: if_splits option.splits)
next
  fix e
  assume "Button2_task_code lvl s = Some (s', evs)" and "e \<in> set evs"
  then show "waits_forever e"
    by (auto simp: Button2_task_code_def Let_def waits_forever_def
        split: if_splits option.splits)
next
  fix e
  assume "e \<in> set (snd (String_task_code m))"
  then show "waits_forever e"
    by (auto simp: String_task_code_def waits_forever_def)
next
  fix e
  assume "e \<in> set (snd (Consumer_task_code p m))"
  then show "waits_forever e"
    by (auto simp: Consumer_task_code_def waits_forever_def)
next
  assume "waits_forever e \<and> blocking_timeout e = Some t"
  then show "t = portMAX_DELAY"
    by (auto simp: waits_forever_def)
next
  assume "waits_forever e \<and> blocking_timeout e = Some t"
  then have "t = portMAX_DELAY"
    by (auto simp: waits_forever_def)
  then show "wait_for t n available \<noteq> Timed_out k"
    by (simp add: wait_for_forever)
qed

theorem C6_blocking_calls_never_time_out_witness:
  "Consumer_task_code button1_message blank_memory =
     (blank_memory,
      [xQueueReceive message_queue portMAX_DELAY button1_message,
       vSerialPutString (message (blank_memory button1_message))
         (message_len (blank_memory button1_message)),
       vTaskDelay 50]) \<and>
   waits_forever (xQueueReceive message_queue portMAX_DELAY button1_message) \<and>
   blocking_timeout (xQueueReceive message_queue portMAX_DELAY button1_message) =
     Some portMAX_DELAY \<and>
   wait_for portMAX_DELAY 0 [False, False, True] \<noteq> Timed_out 0 \<and>
   wait_for portMAX_DELAY 0 [False, False, True] = Obtained 2 \<and>
   wait_for 0 0 [False, False, True] = Timed_out 0"
proof -
  have recv: "xQueueReceive message_queue portMAX_DELAY button1_message
                \<in> set (snd (Consumer_task_code button1_message blank_memory))"
    by (simp add: Consumer_task_code_def)
  have polled: "wait_for 0 0 [False, False, True] = Timed_out 0"
    by (simp add: portMAX_DELAY_def)
  have forever: "wait_for portMAX_DELAY 0 [False, False, True] = Obtained 2"
    by (simp add: numeral_2_eq_2)
  show ?thesis
    using C6_blocking_calls_never_time_out
            [of True _ _ _ PIN_IS_LOW _ _ blank_memory button1_message
                "xQueueReceive message_queue portMAX_DELAY button1_message" portMAX_DELAY
                0 "[False, False, True]" 0]
          recv polled forever
    by (simp add: Consumer_task_code_def)
qed

end
